theory Spec2Isabelle
  imports Complex_Main "HOL-Library.Word" "HOL-Library.Product_Lexorder"
begin

text \<open>
  Part I holds the definitions: the Python binding and the parameter header as they are
  in the sources, then the search engine, which the sources do not contain, as the
  specification describes it. Part II holds what is proved about them.
\<close>

chapter \<open>Part I: the program\<close>

section \<open>Python binding: data model\<close>

text \<open>
  The binding (\<^verbatim>\<open>python_bindings/binding.cpp\<close>) receives numpy arrays through pybind11. An
  array is a view of a buffer: its shape, its strides, and the place in the buffer where its
  first element lies, which is where \<^verbatim>\<open>data()\<close> points. Strides and offsets are counted in
  elements, where numpy counts bytes. \<^verbatim>\<open>buf.ndim\<close> is the length of the shape and
  \<^verbatim>\<open>buf.shape[0]\<close> its first entry. The binding reads \<^verbatim>\<open>shape[0]\<close> only after it has checked
  the number of dimensions.
\<close>

type_synonym u32 = "32 word"

text \<open>
  A \<^verbatim>\<open>float\<close> is modelled by the real number it stands for, or by positive infinity
  (\<^verbatim>\<open>std::numeric_limits<float>::infinity()\<close>). The binding stores and copies floats and never
  computes with them, so rounding, NaN and negative infinity play no part.
\<close>

datatype f32 = Finite real | Infinity

record 'a py_array =
  shape :: "nat list"
  strides :: "int list"
  offset :: nat
  buffer :: "'a list"

definition ndim :: "'a py_array \<Rightarrow> nat" where
  "ndim a = length (shape a)"

text \<open>
  \<^verbatim>\<open>size()\<close>: the number of elements, the product of the shape.
\<close>

definition array_size :: "'a py_array \<Rightarrow> nat" where
  "array_size a = prod_list (shape a)"

text \<open>
  What \<^verbatim>\<open>data()[0]\<close>, \<^verbatim>\<open>data()[1]\<close>, ... read: the buffer from the first element of the
  array on, one element after the other, whatever the strides are. The binding never reads
  the strides of an array: every read of an array in it is such a read.
\<close>

definition items :: "'a py_array \<Rightarrow> 'a list" where
  "items a = drop (offset a) (buffer a)"

text \<open>
  The element \<^verbatim>\<open>a[i]\<close> of a 1-dimensional array, as numpy reads it: \<^verbatim>\<open>strides[0]\<close> elements of
  the buffer lie between one element of the array and the next. The stride of a reversed
  view is negative, the stride of a broadcast view is zero.
\<close>

definition element :: "'a py_array \<Rightarrow> nat \<Rightarrow> 'a" where
  "element a i = buffer a ! nat (int (offset a) + int i * (strides a ! 0))"

definition elements :: "'a py_array \<Rightarrow> 'a list" where
  "elements a = map (element a) [0..<shape a ! 0]"

text \<open>
  Every element of a 1-dimensional array lies in its buffer; numpy builds no other array.
\<close>

definition in_buffer :: "'a py_array \<Rightarrow> bool" where
  "in_buffer a \<longleftrightarrow>
     list_all (\<lambda>i. 0 \<le> int (offset a) + int i * (strides a ! 0) \<and>
                   int (offset a) + int i * (strides a ! 0) < int (length (buffer a)))
       [0..<shape a ! 0]"

text \<open>
  The strides of an array whose elements lie in C order: the last index moves by one
  element. A parameter of type \<^verbatim>\<open>py::array_t<T, py::array::c_style | py::array::forcecast>\<close>
  (\<^verbatim>\<open>FloatArray\<close>, \<^verbatim>\<open>Int64Array\<close>) is such an array, since pybind11 copies any other argument
  into one, and so is an array that the binding allocates. A parameter of type
  \<^verbatim>\<open>py::array_t<T>\<close> is passed as it is, with the strides it has. For a 1-dimensional array of
  two elements or more, \<open>c_contiguous\<close> is the flag \<^verbatim>\<open>C_CONTIGUOUS\<close> of numpy.
\<close>

fun c_strides :: "nat list \<Rightarrow> int list" where
  "c_strides [] = []"
| "c_strides (n # ns) = int (prod_list ns) # c_strides ns"

definition c_contiguous :: "'a py_array \<Rightarrow> bool" where
  "c_contiguous a \<longleftrightarrow> strides a = c_strides (shape a)"

definition c_array :: "nat list \<Rightarrow> 'a list \<Rightarrow> 'a py_array" where
  "c_array sh xs = \<lparr>shape = sh, strides = c_strides sh, offset = 0, buffer = xs\<rparr>"

definition array1 :: "'a list \<Rightarrow> 'a py_array" where
  "array1 xs = c_array [length xs] xs"

text \<open>
  A C++ exception is a value: its class and its message. A message built by
  \<^verbatim>\<open>fmt::format\<close> keeps the format string and the arguments apart. The third value is not
  an exception: it marks a read through \<^verbatim>\<open>data()\<close> past the end of the buffer of an array,
  where C++ defines no behaviour and the model stops.
\<close>

datatype fmt_arg = Num int | Str string

datatype message = Text string | Format string "fmt_arg list"

datatype exception = invalid_argument message | runtime_error message | read_past_buffer

section \<open>Sparse ingestion: \<^verbatim>\<open>BuildSparseVectorsFromCSR\<close>\<close>

text \<open>
  \<^verbatim>\<open>vsag::SparseVector\<close> holds a length and two pointers into the caller's arrays
  (\<^verbatim>\<open>len_\<close>, \<^verbatim>\<open>ids_\<close>, \<^verbatim>\<open>vals_\<close>; a name cannot end in an underscore here, so the
  fields carry the prefix \<open>sv_\<close>). A pointer \<^verbatim>\<open>idx_data + start\<close> is modelled by the
  offset \<^verbatim>\<open>start\<close>.
\<close>

record SparseVector =
  sv_len :: u32
  sv_ids :: nat
  sv_vals :: nat

record SparseVectors =
  sparse_vectors :: "SparseVector list"
  num_elements :: u32
  num_non_zeros :: u32

text \<open>
  The monotonicity loop \<^verbatim>\<open>for (uint32_t i = 1; i <= num_elements; ++i)\<close>. The counter is a
  32-bit word, so \<^verbatim>\<open>++i\<close> wraps; when \<^verbatim>\<open>num_elements\<close> is \<^verbatim>\<open>UINT32_MAX\<close> the guard never
  fails and the loop can only leave by throwing. Not returning is the value \<open>None\<close>.
\<close>

partial_function (option) check_pointers ::
  "u32 list \<Rightarrow> u32 \<Rightarrow> u32 \<Rightarrow> (exception + unit) option" where
  "check_pointers ptr_data n i =
     (if i \<le> n then
        (if ptr_data ! unat i < ptr_data ! unat (i - 1) then
           Some (Inl (invalid_argument
             (Format ''index_pointers[{}]({}) > index_pointers[{}]({})''
                [Num (uint (i - 1)), Num (uint (ptr_data ! unat (i - 1))),
                 Num (uint i), Num (uint (ptr_data ! unat i))])))
         else check_pointers ptr_data n (i + 1))
      else Some (Inr ()))"

text \<open>
  The fill loop \<^verbatim>\<open>for (uint32_t i = 0; i < num_elements; ++i)\<close> assigns every slot of the
  vector created by \<^verbatim>\<open>SparseVectors svs(num_elements)\<close>; \<open>i < num_elements\<close> keeps
  \<open>i + 1\<close> from wrapping. \<^verbatim>\<open>end - start\<close> is a 32-bit subtraction.
\<close>

definition fill_row :: "u32 list \<Rightarrow> nat \<Rightarrow> SparseVector" where
  "fill_row ptr_data i =
     (let start = ptr_data ! i; end' = ptr_data ! (i + 1); len = end' - start
      in \<lparr>sv_len = len, sv_ids = unat start, sv_vals = unat start\<rparr>)"

text \<open>
  The three parameters are of type \<^verbatim>\<open>py::array_t<T>\<close>, without \<^verbatim>\<open>c_style\<close>. The pointer array is
  read through \<^verbatim>\<open>index_pointers.data()\<close> at the positions \<open>0\<close> to \<^verbatim>\<open>num_elements\<close>, the first
  read being the one at \<^verbatim>\<open>num_elements\<close>: when that one lies in the buffer, so do the others.
  Of the other two arrays only the shape is read.
\<close>

definition BuildSparseVectorsFromCSR ::
  "u32 py_array \<Rightarrow> u32 py_array \<Rightarrow> 'f py_array \<Rightarrow> (exception + SparseVectors) option" where
  "BuildSparseVectorsFromCSR index_pointers indices values =
     (if ndim index_pointers \<noteq> 1 \<or> ndim indices \<noteq> 1 \<or> ndim values \<noteq> 1 then
        Some (Inl (invalid_argument (Text ''all inputs must be 1-dimensional'')))
      else if shape index_pointers ! 0 < 2 then
        Some (Inl (invalid_argument (Text ''index_pointers length must be at least 2'')))
      else
        let n = (of_nat (shape index_pointers ! 0 - 1) :: u32);
            ptr_data = items index_pointers
        in if length ptr_data \<le> unat n then Some (Inl read_past_buffer)
           else
             let nnz = ptr_data ! unat n
             in if unat nnz \<noteq> shape indices ! 0 then
                  Some (Inl (invalid_argument
                    (Format ''Size of 'indices'({}) must equal index_pointers[last]''
                       [Num (int (shape indices ! 0)), Num (uint nnz)])))
                else if unat nnz \<noteq> shape values ! 0 then
                  Some (Inl (invalid_argument
                    (Format ''Size of 'values'({}) must equal index_pointers[last]({})''
                       [Num (int (shape values ! 0)), Num (uint nnz)])))
                else if ptr_data ! 0 \<noteq> 0 then
                  Some (Inl (invalid_argument (Text ''index_pointers[0] must be 0'')))
                else
                  (case check_pointers ptr_data n 1 of
                     None \<Rightarrow> None
                   | Some (Inl e) \<Rightarrow> Some (Inl e)
                   | Some (Inr u) \<Rightarrow>
                       Some (Inr \<lparr>sparse_vectors = map (fill_row ptr_data) [0..<unat n],
                                  num_elements = n, num_non_zeros = nnz\<rparr>)))"

text \<open>
  The three conditions under which a CSR triple is malformed, as the specification lists
  them: a nonzero first pointer, a pointer smaller than its predecessor, or a length of
  \<open>indices\<close> or \<open>values\<close> that differs from the last pointer. The pointers are the elements
  of the pointer array.
\<close>

definition csr_malformed :: "u32 list \<Rightarrow> nat \<Rightarrow> nat \<Rightarrow> bool" where
  "csr_malformed ptr n_indices n_values \<longleftrightarrow>
     ptr ! 0 \<noteq> 0 \<or> (\<exists>i. 0 < i \<and> i < length ptr \<and> ptr ! i < ptr ! (i - 1)) \<or>
     n_indices \<noteq> unat (last ptr) \<or> n_values \<noteq> unat (last ptr)"

text \<open>
  Two views for the examples, as numpy makes them by \<^verbatim>\<open>base[::2]\<close>: every other element of a
  buffer.
\<close>

definition strided_pointers :: "u32 py_array" where
  "strided_pointers = \<lparr>shape = [4], strides = [2], offset = 0, buffer = [0, 2, 5, 6, 0, 0, 0]\<rparr>"

definition strided_rows :: "u32 py_array" where
  "strided_rows = \<lparr>shape = [3], strides = [2], offset = 0, buffer = [0, 1, 2, 2, 2]\<rparr>"

section \<open>Build and search parameters: \<^verbatim>\<open>hnsw_zparameters.h\<close>\<close>

datatype PrefetchMode = DISABLED | HARDCODED | CUSTOM

definition PrefetchMode_value :: "PrefetchMode \<Rightarrow> nat" where
  "PrefetchMode_value m = (case m of DISABLED \<Rightarrow> 0 | HARDCODED \<Rightarrow> 1 | CUSTOM \<Rightarrow> 2)"

text \<open>
  \<^verbatim>\<open>DataTypes\<close> and \<^verbatim>\<open>hnswlib::SpaceInterface\<close> are declared in headers outside the sources at
  hand (\<^verbatim>\<open>data_type.h\<close>, \<^verbatim>\<open>hnswlib.h\<close>). Of the enumeration only the enumerator the parameter
  header names is known; the others are kept apart by a number.
\<close>

datatype DataTypes = DATA_TYPE_FLOAT | DATA_TYPE_other nat

typedecl SpaceInterface

record HnswParameters =
  space :: "SpaceInterface option"
  max_degree :: int
  ef_construction :: int
  use_conjugate_graph :: bool
  use_static :: bool
  normalize :: bool
  use_reversed_edges :: bool
  data_type :: DataTypes
  prefetch_mode :: PrefetchMode

text \<open>
  \<^verbatim>\<open>HnswParameters() = default\<close>: a member with a default member initializer takes it, the
  shared pointer \<^verbatim>\<open>space\<close> is null, and the two integers without an initializer are
  indeterminate, so they are parameters of the model. The member \<^verbatim>\<open>type\<close> is the field
  \<open>data_type\<close>.
\<close>

definition HnswParameters_default :: "int \<Rightarrow> int \<Rightarrow> HnswParameters" where
  "HnswParameters_default indeterminate_max_degree indeterminate_ef_construction =
     \<lparr>space = None,
      max_degree = indeterminate_max_degree,
      ef_construction = indeterminate_ef_construction,
      use_conjugate_graph = False,
      use_static = False,
      normalize = False,
      use_reversed_edges = False,
      data_type = DATA_TYPE_FLOAT,
      prefetch_mode = HARDCODED\<rparr>"

text \<open>
  The initializer \<^verbatim>\<open>float skip_ratio{0.9}\<close> converts the decimal literal to the nearest
  \<^verbatim>\<open>float\<close>. Between \<open>1/2\<close> and \<open>1\<close> floats are the multiples of \<open>2^-24\<close>, so the stored
  value is \<open>round (0.9 * 2^24) / 2^24\<close>.
\<close>

definition float_of_literal_below_1 :: "real \<Rightarrow> f32" where
  "float_of_literal_below_1 x = Finite (of_int (round (x * 2 ^ 24)) / 2 ^ 24)"

record HnswSearchParameters =
  ef_search :: int
  skip_ratio :: f32
  use_conjugate_graph_search :: bool
  search_prefetch_mode :: PrefetchMode
  prefetch_stride_codes :: u32
  prefetch_depth_codes :: u32
  prefetch_stride_visit :: u32

text \<open>
  \<^verbatim>\<open>HnswSearchParameters() = default\<close>; \<^verbatim>\<open>ef_search\<close> and \<^verbatim>\<open>use_conjugate_graph_search\<close> have
  no initializer. The member \<^verbatim>\<open>prefetch_mode\<close> of this struct is the field
  \<open>search_prefetch_mode\<close>.
\<close>

definition HnswSearchParameters_default :: "int \<Rightarrow> bool \<Rightarrow> HnswSearchParameters" where
  "HnswSearchParameters_default indeterminate_ef_search indeterminate_use_conjugate =
     \<lparr>ef_search = indeterminate_ef_search,
      skip_ratio = float_of_literal_below_1 (9 / 10),
      use_conjugate_graph_search = indeterminate_use_conjugate,
      search_prefetch_mode = HARDCODED,
      prefetch_stride_codes = 1,
      prefetch_depth_codes = 1,
      prefetch_stride_visit = 3\<rparr>"

section \<open>The binding's \<^verbatim>\<open>Index\<close> class\<close>

text \<open>
  \<^verbatim>\<open>vsag::Dataset\<close> as the binding uses it: the fluent setters are record updates, the
  getters are the fields. Element counts and dimensions are counts, so they are natural
  numbers. \<^verbatim>\<open>vsag::Error\<close> carries a type and a message.
\<close>

record Dataset =
  Owner :: bool
  NumElements :: nat
  Dim :: nat
  Ids :: "int list"
  Distances :: "f32 list"
  Float32Vectors :: "f32 list"
  SparseVectors_of :: "SparseVector list"

definition Make :: Dataset where
  "Make = \<lparr>Owner = True, NumElements = 0, Dim = 0, Ids = [], Distances = [],
           Float32Vectors = [], SparseVectors_of = []\<rparr>"

datatype ErrorType = UNSUPPORTED_INDEX | INVALID_ARGUMENT | ErrorType_other nat

record Error =
  type :: ErrorType
  message :: string

text \<open>
  The member \<^verbatim>\<open>index_\<close> points to a \<^verbatim>\<open>vsag::Index\<close>, an abstract class whose implementation
  is outside the binding. Each wrapper of the binding therefore takes as its first
  argument the method of the index it calls: a function to the \<^verbatim>\<open>tl::expected\<close> result,
  \<open>Inl\<close> the error. A method that changes the index also takes and returns its state.
\<close>

type_synonym knn_method = "Dataset \<Rightarrow> nat \<Rightarrow> string \<Rightarrow> Error + Dataset"

type_synonym range_method = "Dataset \<Rightarrow> f32 \<Rightarrow> string \<Rightarrow> Error + Dataset"

type_synonym 's remove_method = "int \<Rightarrow> 's \<Rightarrow> (Error + bool) \<times> 's"

subsection \<open>\<^verbatim>\<open>Index::KnnSearch\<close>\<close>

text \<open>
  The two nested copy loops over \<open>qi < available_queries\<close> and \<open>kj < available_k\<close>. The
  counters are \<^verbatim>\<open>size_t\<close>; an array in memory has fewer than \<open>2^64\<close> elements, so they
  do not wrap.
\<close>

definition knn_copy ::
  "Dataset \<Rightarrow> nat \<Rightarrow> nat \<Rightarrow> nat \<Rightarrow> int list \<times> f32 list \<Rightarrow> int list \<times> f32 list" where
  "knn_copy dataset k available_queries available_k out =
     fold (\<lambda>qi. fold (\<lambda>kj (ids, dists).
              let src_idx = qi * Dim dataset + kj;
                  dst_idx = qi * k + kj
              in (ids[dst_idx := Ids dataset ! src_idx],
                  dists[dst_idx := Distances dataset ! src_idx]))
            [0..<available_k])
       [0..<available_queries] out"

definition KnnSearch ::
  "knn_method \<Rightarrow> f32 py_array \<Rightarrow> nat \<Rightarrow> string \<Rightarrow> exception + (int py_array \<times> f32 py_array)" where
  "KnnSearch index_KnnSearch vectors k parameters =
     (if ndim vectors \<noteq> 1 \<and> ndim vectors \<noteq> 2 then
        Inl (invalid_argument (Text ''vector must be 1d or 2d array''))
      else
        let data_num = (if ndim vectors = 2 then shape vectors ! 0 else 1);
            dim = (if ndim vectors = 2 then shape vectors ! 1 else shape vectors ! 0);
            query = Make\<lparr>NumElements := data_num, Dim := dim,
                         Float32Vectors := items vectors, Owner := False\<rparr>;
            out_shape = (if data_num = 1 then [k] else [data_num, k]);
            filled = (replicate (data_num * k) (- 1), replicate (data_num * k) Infinity)
        in case index_KnnSearch query k parameters of
             Inr dataset \<Rightarrow>
               let available_k = min (Dim dataset) k;
                   available_queries = min (NumElements dataset) data_num;
                   (ids, dists) = knn_copy dataset k available_queries available_k filled
               in Inr (c_array out_shape ids, c_array out_shape dists)
           | Inl err \<Rightarrow> Inl (runtime_error (Text (message err))))"

text \<open>The query dataset that \<^verbatim>\<open>KnnSearch\<close> builds from one vector.\<close>

definition knn_query :: "f32 list \<Rightarrow> Dataset" where
  "knn_query q = Make\<lparr>NumElements := 1, Dim := length q, Float32Vectors := q, Owner := False\<rparr>"

subsection \<open>\<^verbatim>\<open>Index::RangeSearch\<close>\<close>

text \<open>
  The copy loop \<^verbatim>\<open>for (uint32_t i = 0; i < data_num * k; ++i)\<close> with \<open>data_num = 1\<close>. The
  counter is a 32-bit word compared with a 64-bit bound, so for \<open>2^32\<close> results or more the
  guard never fails. The arrays were resized to \<open>k\<close> entries before the loop.
\<close>

partial_function (option) range_copy ::
  "Dataset \<Rightarrow> nat \<Rightarrow> u32 \<Rightarrow> int list \<times> f32 list \<Rightarrow> (int list \<times> f32 list) option" where
  "range_copy result n i out =
     (if unat i < n then
        range_copy result n (i + 1)
          ((fst out)[unat i := Ids result ! unat i],
           (snd out)[unat i := Distances result ! unat i])
      else Some out)"

text \<open>
  \<^verbatim>\<open>labels\<close> and \<^verbatim>\<open>dists\<close> are default-constructed: 1-dimensional arrays of no element. There
  is no \<^verbatim>\<open>else\<close> for a failed search: the two empty arrays are returned.
  \<^verbatim>\<open>resize({k})\<close> of an empty numpy array gives \<open>k\<close> zero entries, which the loop overwrites.
  The query is of type \<^verbatim>\<open>py::array_t<float>\<close>: its dimension is \<^verbatim>\<open>point.size()\<close> and its vector is
  what \<^verbatim>\<open>point.mutable_data()\<close> points to.
\<close>

definition RangeSearch ::
  "range_method \<Rightarrow> f32 py_array \<Rightarrow> f32 \<Rightarrow> string
     \<Rightarrow> (exception + (int py_array \<times> f32 py_array)) option" where
  "RangeSearch index_RangeSearch point threshold parameters =
     (let data_num = 1;
          query = Make\<lparr>NumElements := data_num, Dim := array_size point,
                       Float32Vectors := items point, Owner := False\<rparr>
      in case index_RangeSearch query threshold parameters of
           Inr result \<Rightarrow>
             let k = Dim result;
                 resized = (replicate k 0, replicate k (Finite 0))
             in (case range_copy result (data_num * k) 0 resized of
                   None \<Rightarrow> None
                 | Some (labels, dists) \<Rightarrow>
                     Some (Inr (c_array [k] labels, c_array [k] dists)))
         | Inl err \<Rightarrow> Some (Inr (array1 [], array1 [])))"

text \<open>The query dataset that \<^verbatim>\<open>RangeSearch\<close> builds.\<close>

definition range_query :: "f32 py_array \<Rightarrow> Dataset" where
  "range_query point =
     Make\<lparr>NumElements := 1, Dim := array_size point, Float32Vectors := items point, Owner := False\<rparr>"

text \<open>One pass of the body of the copy loop of \<^verbatim>\<open>RangeSearch\<close>.\<close>

definition range_step :: "Dataset \<Rightarrow> nat \<Rightarrow> int list \<times> f32 list \<Rightarrow> int list \<times> f32 list" where
  "range_step result j out =
     ((fst out)[j := Ids result ! j], (snd out)[j := Distances result ! j])"

subsection \<open>\<^verbatim>\<open>Index::SparseKnnSearch\<close>\<close>

text \<open>
  The result arrays are allocated without being filled: their first content is a
  parameter. A row whose search fails is skipped and keeps that content.
\<close>

definition sparse_knn_row ::
  "knn_method \<Rightarrow> SparseVectors \<Rightarrow> nat \<Rightarrow> string \<Rightarrow> nat
     \<Rightarrow> int list \<times> f32 list \<Rightarrow> int list \<times> f32 list" where
  "sparse_knn_row index_KnnSearch batch k parameters i out =
     (let query = Make\<lparr>Owner := False, NumElements := 1,
                       SparseVectors_of := drop i (sparse_vectors batch)\<rparr>
      in case index_KnnSearch query k parameters of
           Inr result \<Rightarrow>
             fold (\<lambda>j (ids, dists).
                     if j < Dim result
                     then (ids[i * k + j := Ids result ! j], dists[i * k + j := Distances result ! j])
                     else (ids, dists))
               [0..<k] out
         | Inl err \<Rightarrow> out)"

definition SparseKnnSearch ::
  "knn_method \<Rightarrow> int list \<times> f32 list \<Rightarrow> u32 py_array \<Rightarrow> u32 py_array \<Rightarrow> f32 py_array
     \<Rightarrow> u32 \<Rightarrow> string \<Rightarrow> (exception + (int py_array \<times> f32 py_array)) option" where
  "SparseKnnSearch index_KnnSearch uninitialized index_pointers indices values k parameters =
     (case BuildSparseVectorsFromCSR index_pointers indices values of
        None \<Rightarrow> None
      | Some (Inl e) \<Rightarrow> Some (Inl e)
      | Some (Inr batch) \<Rightarrow>
          let rows = unat (num_elements batch);
              (ids, dists) = fold (sparse_knn_row index_KnnSearch batch (unat k) parameters)
                               [0..<rows] uninitialized
          in Some (Inr (c_array [rows, unat k] ids, c_array [rows, unat k] dists)))"

subsection \<open>\<^verbatim>\<open>Index::Remove\<close>\<close>

text \<open>
  The ids \<^verbatim>\<open>data[0]\<close> to \<^verbatim>\<open>data[shape[0] - 1]\<close> are removed one after the other; the first
  failure throws, and the removals made before it stay. The parameter is an \<^verbatim>\<open>Int64Array\<close>,
  whose elements lie in this order.
\<close>

fun remove_loop :: "'s remove_method \<Rightarrow> int list \<Rightarrow> 's \<Rightarrow> (exception + unit) \<times> 's" where
  "remove_loop index_Remove [] st = (Inr (), st)"
| "remove_loop index_Remove (label # ids) st =
     (case index_Remove label st of
        (Inl err, st') \<Rightarrow>
          (Inl (runtime_error
             (Format ''failed to remove id {}: {}'' [Num label, Str (message err)])), st')
      | (Inr removed, st') \<Rightarrow> remove_loop index_Remove ids st')"

definition Remove :: "'s remove_method \<Rightarrow> int py_array \<Rightarrow> 's \<Rightarrow> (exception + unit) \<times> 's" where
  "Remove index_Remove ids st =
     (if ndim ids \<noteq> 1 then (Inl (invalid_argument (Text ''ids must be a 1-dimensional array'')), st)
      else remove_loop index_Remove (take (shape ids ! 0) (items ids)) st)"

section \<open>The search engine, modelled from the specification\<close>

subsection \<open>Graph, configuration and prefetch hints\<close>

text \<open>
  Modelled from the spec: the search engine, the graph and the prefetch controller are
  outside the sources at hand; the definitions of this section follow sections 3 and 4 of
  the specification. \<open>PrefetchMode\<close> is the sum type of section 3: \<open>Disabled\<close>, \<open>Hardcoded\<close>,
  \<open>Custom{stride_codes, depth_codes, stride_visit}\<close>.
\<close>

datatype PrefetchConfig = Disabled | Hardcoded | Custom nat nat nat

text \<open>
  Modelled from the spec: a prefetch hint (section 4.4), for one cache line of the vector
  codes of a node or for the neighbour and visited-bitmap metadata of a node. The hints a
  search issues are kept as a list beside its state.
\<close>

datatype hint = PrefetchCodes nat nat | PrefetchVisit nat

text \<open>
  Modelled from the spec: a node (section 3) has an external 64-bit id, a top layer, one
  neighbour list per layer, and is live or tombstoned; its internal index is its position
  in the graph.
\<close>

record node =
  ext_id :: int
  top_layer :: nat
  neighbors :: "nat list list"
  tombstoned :: bool

text \<open>
  Modelled from the spec: the graph (section 3) has an entry point and a current maximal
  layer. The byte size of a vector, which the hardcoded prefetch stride is computed from, is
  kept with it.
\<close>

record graph =
  nodes :: "node list"
  entry_point :: "nat option"
  max_layer :: nat
  vector_byte_size :: nat

text \<open>
  Modelled from the spec: the search configuration of section 3, without the conjugate
  graph, which is optional and whose policy the specification leaves open.
\<close>

record SearchConfig =
  cfg_ef_search :: nat
  cfg_skip_ratio :: real
  cfg_prefetch :: PrefetchConfig

text \<open>
  Modelled from the spec: the code that reads a search parameter value is outside the
  sources at hand. The prefetch configuration a search parameter value of \<^verbatim>\<open>hnsw_zparameters.h\<close> stands
  for: the three custom values are used only when the mode is \<open>CUSTOM\<close>, as the header says.
\<close>

definition prefetch_config_of :: "HnswSearchParameters \<Rightarrow> PrefetchConfig" where
  "prefetch_config_of p =
     (case search_prefetch_mode p of
        DISABLED \<Rightarrow> Disabled
      | HARDCODED \<Rightarrow> Hardcoded
      | CUSTOM \<Rightarrow> Custom (unat (prefetch_stride_codes p)) (unat (prefetch_depth_codes p))
                   (unat (prefetch_stride_visit p)))"

text \<open>
  Modelled from the spec: the search configuration of a search parameter value
  (section 3): \<open>ef_search\<close>, \<open>skip_ratio\<close> and the prefetch configuration.
\<close>

definition search_config_of :: "HnswSearchParameters \<Rightarrow> SearchConfig" where
  "search_config_of p =
     \<lparr>cfg_ef_search = nat (ef_search p),
      cfg_skip_ratio = (case skip_ratio p of Finite r \<Rightarrow> r | Infinity \<Rightarrow> 1),
      cfg_prefetch = prefetch_config_of p\<rparr>"

text \<open>
  Modelled from the spec: a live node is one that exists and is not tombstoned.
\<close>

definition live :: "graph \<Rightarrow> nat \<Rightarrow> bool" where
  "live g i \<longleftrightarrow> i < length (nodes g) \<and> \<not> tombstoned (nodes g ! i)"

text \<open>
  Modelled from the spec: the neighbour list of a node at a layer; a node has none above
  its top layer.
\<close>

definition neighbors_at :: "graph \<Rightarrow> nat \<Rightarrow> nat \<Rightarrow> nat list" where
  "neighbors_at g l i =
     (if i < length (nodes g) \<and> l < length (neighbors (nodes g ! i))
      then neighbors (nodes g ! i) ! l else [])"

text \<open>
  Modelled from the spec: the strides and the depth in effect (section 4.4). \<open>Disabled\<close>
  issues no hint; \<open>Hardcoded\<close> uses the stride \<open>max(1, vector_byte_size / 128 - 1)\<close> with
  depth 1; \<open>Custom\<close> uses its three values.
\<close>

fun prefetch_plan :: "nat \<Rightarrow> PrefetchConfig \<Rightarrow> (nat \<times> nat \<times> nat) option" where
  "prefetch_plan bytes Disabled = None"
| "prefetch_plan bytes Hardcoded =
     (let stride = max 1 (bytes div 128 - 1) in Some (stride, 1, stride))"
| "prefetch_plan bytes (Custom stride_codes depth_codes stride_visit) =
     Some (stride_codes, depth_codes, stride_visit)"

text \<open>
  Modelled from the spec: the hints issued when the neighbour at position \<open>j\<close> is scored
  (section 4.4): \<open>depth_codes\<close> consecutive cache lines of the codes of the neighbour
  \<open>stride_codes\<close> positions ahead, and one hint for the metadata of the neighbour
  \<open>stride_visit\<close> positions ahead.
\<close>

fun hints_at :: "(nat \<times> nat \<times> nat) option \<Rightarrow> nat list \<Rightarrow> nat \<Rightarrow> hint list" where
  "hints_at None ns j = []"
| "hints_at (Some (stride_codes, depth_codes, stride_visit)) ns j =
     (if j + stride_codes < length ns
      then map (PrefetchCodes (ns ! (j + stride_codes))) [0..<depth_codes] else []) @
     (if j + stride_visit < length ns then [PrefetchVisit (ns ! (j + stride_visit))] else [])"

subsection \<open>Descent through the upper layers\<close>

text \<open>
  Modelled from the spec: single-best-neighbour hill-climbing at one layer (section 4.3):
  move to the neighbour nearest to the query, stop when no neighbour improves. Tombstoned
  nodes are excluded from traversal. The distance of a node to the query is supplied by the
  vector store, an external collaborator, and is a parameter.
\<close>

function greedy :: "graph \<Rightarrow> (nat \<Rightarrow> real) \<Rightarrow> nat \<Rightarrow> nat \<Rightarrow> nat" where
  "greedy g distance l c =
     (case filter (\<lambda>n. live g n \<and> distance n < distance c) (neighbors_at g l c) of
        [] \<Rightarrow> c
      | n # ns \<Rightarrow> greedy g distance l (arg_min_list distance (n # ns)))"
  by pat_completeness auto
termination
proof (relation "measure (\<lambda>(g, distance, l, c). card {i. i < length (nodes g) \<and> distance i < distance c})")
  show "wf (measure (\<lambda>(g, distance, l, c). card {i. i < length (nodes g) \<and> distance i < distance c}))"
    by simp
next
  fix g :: graph and distance :: "nat \<Rightarrow> real" and l c n ns
  assume f: "filter (\<lambda>n. live g n \<and> distance n < distance c) (neighbors_at g l c) = n # ns"
  let ?m = "arg_min_list distance (n # ns)"
  have "?m \<in> set (n # ns)"
    by (rule arg_min_list_in) simp
  then have "?m \<in> set (filter (\<lambda>n. live g n \<and> distance n < distance c) (neighbors_at g l c))"
    using f by simp
  then have m: "?m < length (nodes g)" "distance ?m < distance c"
    by (auto simp: live_def)
  have "{i. i < length (nodes g) \<and> distance i < distance ?m} \<subset> {i. i < length (nodes g) \<and> distance i < distance c}"
    using m by auto
  then have "card {i. i < length (nodes g) \<and> distance i < distance ?m} < card {i. i < length (nodes g) \<and> distance i < distance c}"
    by (intro psubset_card_mono) simp_all
  then show "((g, distance, l, ?m), (g, distance, l, c))
      \<in> measure (\<lambda>(g, distance, l, c). card {i. i < length (nodes g) \<and> distance i < distance c})"
    by simp
qed

text \<open>
  Modelled from the spec: the descent from the entry point through the layers
  \<open>max_layer\<close> down to 1 (section 4.3).
\<close>

definition descend :: "graph \<Rightarrow> (nat \<Rightarrow> real) \<Rightarrow> nat \<Rightarrow> nat" where
  "descend g distance ep = fold (greedy g distance) (rev [1..<Suc (max_layer g)]) ep"

subsection \<open>Best-first search at layer 0\<close>

text \<open>
  Modelled from the spec: the state of the search at layer 0 (section 4.3): the visited
  set, the frontier of unexplored candidates and the accepted candidates (\<open>best\<close>), both
  kept in ascending order of (distance, internal index), and the hints issued so far.
\<close>

record search_state =
  visited :: "nat set"
  frontier :: "(real \<times> nat) list"
  best :: "(real \<times> nat) list"
  hints :: "hint list"

text \<open>
  Modelled from the spec: what decides whether a scored neighbour is accepted
  (section 4.3). \<open>KnnSearch\<close> keeps a heap of the best \<open>ef_search\<close> candidates;
  \<open>RangeSearch\<close> replaces that heap with the acceptance test \<open>distance \<le> threshold\<close>.
\<close>

datatype acceptance = Best nat | Within real

text \<open>
  Modelled from the spec: under the heap a scored neighbour qualifies when the best
  candidates are fewer than \<open>ef_search\<close> or it is nearer than the worst of them; under the
  acceptance test it qualifies when its distance is at most the threshold.
\<close>

fun qualifies :: "acceptance \<Rightarrow> (real \<times> nat) list \<Rightarrow> real \<Rightarrow> bool" where
  "qualifies (Best ef) b d \<longleftrightarrow> length b < ef \<or> (b \<noteq> [] \<and> d < fst (last b))"
| "qualifies (Within threshold) b d \<longleftrightarrow> d \<le> threshold"

text \<open>
  Modelled from the spec: insertion into the accepted candidates. The heap evicts the
  worst when their number exceeds \<open>ef_search\<close>; the acceptance test evicts nothing, so the
  result has a variable length.
\<close>

fun accept :: "acceptance \<Rightarrow> real \<times> nat \<Rightarrow> (real \<times> nat) list \<Rightarrow> (real \<times> nat) list" where
  "accept (Best ef) cand b = (let b' = insort cand b in if ef < length b' then butlast b' else b')"
| "accept (Within threshold) cand b = insort cand b"

text \<open>
  Modelled from the spec: scoring the neighbour at position \<open>j\<close> of the expanded
  candidate: the prefetch hints for that position are issued; a neighbour already visited is
  skipped; a tombstoned one is marked visited and dropped; a qualifying one enters both heaps.
\<close>

definition score ::
  "graph \<Rightarrow> (nat \<Rightarrow> real) \<Rightarrow> SearchConfig \<Rightarrow> acceptance \<Rightarrow> nat list \<Rightarrow> nat
     \<Rightarrow> search_state \<Rightarrow> search_state" where
  "score g distance cfg acc ns j st =
     (let n = ns ! j;
          st1 = st\<lparr>hints := hints st @
                  hints_at (prefetch_plan (vector_byte_size g) (cfg_prefetch cfg)) ns j\<rparr>
      in if n \<in> visited st1 \<or> \<not> n < length (nodes g) then st1
         else
           let st2 = st1\<lparr>visited := insert n (visited st1)\<rparr>;
               d = distance n
           in if tombstoned (nodes g ! n) then st2
              else if qualifies acc (best st2) d
              then st2\<lparr>frontier := insort (d, n) (frontier st2),
                       best := accept acc (d, n) (best st2)\<rparr>
              else st2)"

text \<open>
  Modelled from the spec: expanding a candidate scores its neighbours at layer 0 in
  neighbour-iteration order.
\<close>

definition expand ::
  "graph \<Rightarrow> (nat \<Rightarrow> real) \<Rightarrow> SearchConfig \<Rightarrow> acceptance \<Rightarrow> nat \<Rightarrow> search_state
     \<Rightarrow> search_state" where
  "expand g distance cfg acc c st =
     (let ns = neighbors_at g 0 c in fold (score g distance cfg acc ns) [0..<length ns] st)"

text \<open>
  Modelled from the spec: the skip heuristic (section 4.3) rejects a candidate whose
  distance divided by the current worst accepted distance exceeds \<open>skip_ratio\<close>. Division by
  a zero distance is written out: the quotient of a positive distance is infinite.
\<close>

definition skip_rejects :: "real \<Rightarrow> real \<Rightarrow> real \<Rightarrow> bool" where
  "skip_rejects ratio d worst \<longleftrightarrow> (if worst = 0 then 0 < d else ratio < d / worst)"

text \<open>
  The nodes a search has not visited yet; they bound its length.
\<close>

definition unvisited :: "graph \<Rightarrow> search_state \<Rightarrow> nat set" where
  "unvisited g st = {i. i < length (nodes g) \<and> i \<notin> visited st}"

text \<open>
  The search at layer 0 terminates: a pass takes a candidate off the frontier, and a
  candidate enters the frontier only when a node is visited for the first time.
\<close>

lemma finite_unvisited [simp]: "finite (unvisited g st)"
  by (simp add: unvisited_def)

lemma score_measure:
  "card (unvisited g (score g distance cfg acc ns j st)) + length (frontier (score g distance cfg acc ns j st))
     \<le> card (unvisited g st) + length (frontier st) \<and>
   card (unvisited g (score g distance cfg acc ns j st)) \<le> card (unvisited g st)"
proof -
  let ?n = "ns ! j"
  show ?thesis
  proof (cases "?n \<in> visited st \<or> \<not> ?n < length (nodes g)")
    case True
    then show ?thesis by (auto simp: score_def Let_def unvisited_def)
  next
    case False
    then have s: "unvisited g st = insert ?n (unvisited g (st\<lparr>visited := insert ?n (visited st)\<rparr>))"
      "?n \<notin> unvisited g (st\<lparr>visited := insert ?n (visited st)\<rparr>)"
      by (auto simp: unvisited_def)
    have c: "card (unvisited g st) = Suc (card (unvisited g (st\<lparr>visited := insert ?n (visited st)\<rparr>)))"
      by (subst s(1)) (simp add: s(2))
    have u: "unvisited g (st\<lparr>visited := insert ?n (visited st), hints := h\<rparr>) =
             unvisited g (st\<lparr>visited := insert ?n (visited st)\<rparr>)" for h
      by (simp add: unvisited_def)
    show ?thesis
      using False c by (auto simp: score_def Let_def unvisited_def)
  qed
qed

lemma fold_score_measure:
  "card (unvisited g (fold (score g distance cfg acc ns) js st)) +
     length (frontier (fold (score g distance cfg acc ns) js st))
     \<le> card (unvisited g st) + length (frontier st) \<and>
   card (unvisited g (fold (score g distance cfg acc ns) js st)) \<le> card (unvisited g st)"
proof (induction js arbitrary: st)
  case Nil
  then show ?case by simp
next
  case (Cons j js)
  from Cons[of "score g distance cfg acc ns j st"] score_measure[of g distance cfg acc ns j st]
  show ?case by simp
qed

lemma expand_measure:
  "card (unvisited g (expand g distance cfg acc c st)) + length (frontier (expand g distance cfg acc c st))
     \<le> card (unvisited g st) + length (frontier st)"
  "card (unvisited g (expand g distance cfg acc c st)) \<le> card (unvisited g st)"
  using fold_score_measure[of g distance cfg acc "neighbors_at g 0 c" _ st]
  by (simp_all add: expand_def Let_def)

text \<open>
  Modelled from the spec: the bounded best-first search at layer 0 (section 4.3). The
  nearest candidate of the frontier is taken; the search stops when its distance exceeds the
  worst accepted distance; the skip heuristic drops it unexpanded; otherwise it is expanded.
\<close>

function search_layer ::
  "graph \<Rightarrow> (nat \<Rightarrow> real) \<Rightarrow> SearchConfig \<Rightarrow> acceptance \<Rightarrow> search_state \<Rightarrow> search_state" where
  "search_layer g distance cfg acc st =
     (case frontier st of
        [] \<Rightarrow> st
      | cand # rest \<Rightarrow>
          if best st \<noteq> [] \<and> fst (last (best st)) < fst cand then st
          else if best st \<noteq> [] \<and> skip_rejects (cfg_skip_ratio cfg) (fst cand) (fst (last (best st)))
          then search_layer g distance cfg acc (st\<lparr>frontier := rest\<rparr>)
          else search_layer g distance cfg acc (expand g distance cfg acc (snd cand) (st\<lparr>frontier := rest\<rparr>)))"
  by pat_completeness auto
termination
proof (relation "measure (\<lambda>(g, distance, cfg, acc, st). 2 * card (unvisited g st) + length (frontier st))")
  show "wf (measure (\<lambda>(g, distance, cfg, acc, st). 2 * card (unvisited g st) + length (frontier st)))"
    by simp
next
  fix g :: graph and distance :: "nat \<Rightarrow> real" and cfg :: SearchConfig and acc :: acceptance
    and st :: search_state and cand rest
  assume "frontier st = cand # rest"
  then show "((g, distance, cfg, acc, st\<lparr>frontier := rest\<rparr>), (g, distance, cfg, acc, st))
      \<in> measure (\<lambda>(g, distance, cfg, acc, st). 2 * card (unvisited g st) + length (frontier st))"
    by (simp add: unvisited_def)
next
  fix g :: graph and distance :: "nat \<Rightarrow> real" and cfg :: SearchConfig and acc :: acceptance
    and st :: search_state and cand rest
  assume f: "frontier st = cand # rest"
  let ?st' = "st\<lparr>frontier := rest\<rparr>"
  have u: "unvisited g ?st' = unvisited g st"
    by (simp add: unvisited_def)
  have "2 * card (unvisited g (expand g distance cfg acc (snd cand) ?st')) +
          length (frontier (expand g distance cfg acc (snd cand) ?st'))
        \<le> 2 * card (unvisited g ?st') + length (frontier ?st')"
    using expand_measure[of g distance cfg acc "snd cand" ?st'] by linarith
  then show "((g, distance, cfg, acc, expand g distance cfg acc (snd cand) ?st'), (g, distance, cfg, acc, st))
      \<in> measure (\<lambda>(g, distance, cfg, acc, st). 2 * card (unvisited g st) + length (frontier st))"
    using f u by simp
qed

subsection \<open>The two searches and removal\<close>

text \<open>
  Modelled from the spec: the error kinds of section 7.
\<close>

datatype engine_error = ConfigError | DuplicateIdError | DimensionMismatchError
  | MalformedSparseInputError | NotFoundError | SerializationError

text \<open>
  Modelled from the spec: the state before any node is visited.
\<close>

definition empty_state :: search_state where
  "empty_state = \<lparr>visited = {}, frontier = [], best = [], hints = []\<rparr>"

text \<open>
  Modelled from the spec: the traversal machinery shared by both searches (section 4.3):
  descent, then the search at layer 0 from the node the descent ends in, which is scored
  like any other candidate. An empty index has no entry point.
\<close>

definition layered_search ::
  "graph \<Rightarrow> (nat \<Rightarrow> real) \<Rightarrow> SearchConfig \<Rightarrow> acceptance \<Rightarrow> search_state" where
  "layered_search g distance cfg acc =
     (case entry_point g of
        None \<Rightarrow> empty_state
      | Some ep \<Rightarrow>
          search_layer g distance cfg acc
            (score g distance cfg acc [descend g distance ep] 0 empty_state))"

text \<open>
  Modelled from the spec: the traversal of \<open>KnnSearch\<close>, with the heap of the best
  \<open>ef_search\<close> candidates.
\<close>

definition traverse :: "graph \<Rightarrow> (nat \<Rightarrow> real) \<Rightarrow> SearchConfig \<Rightarrow> search_state" where
  "traverse g distance cfg = layered_search g distance cfg (Best (cfg_ef_search cfg))"

text \<open>
  Modelled from the spec: a result pairs the external id of a node with its distance.
\<close>

definition hits_of :: "graph \<Rightarrow> (real \<times> nat) list \<Rightarrow> (int \<times> real) list" where
  "hits_of g cands = map (\<lambda>(d, i). (ext_id (nodes g ! i), d)) cands"

text \<open>
  Modelled from the spec: \<open>KnnSearch(query, k, config)\<close> (section 4.3) extracts the top
  \<open>k\<close> of the best candidates in ascending order of distance, ties by ascending internal
  index. \<open>ef_search < k\<close> is a \<open>ConfigError\<close> (section 7).
\<close>

definition SearchEngine_KnnSearch ::
  "graph \<Rightarrow> (nat \<Rightarrow> real) \<Rightarrow> SearchConfig \<Rightarrow> nat \<Rightarrow> engine_error + (int \<times> real) list" where
  "SearchEngine_KnnSearch g distance cfg k =
     (if cfg_ef_search cfg < k then Inl ConfigError
      else Inr (hits_of g (take k (best (traverse g distance cfg)))))"

text \<open>
  Modelled from the spec: \<open>RangeSearch(query, threshold, config)\<close> (section 4.3) reuses the
  same traversal machinery with the acceptance test \<open>distance \<le> threshold\<close> in the place of
  the heap, and returns every candidate it accepted, in ascending order of distance. The
  number of its results is not bounded by \<open>ef_search\<close>.
\<close>

definition SearchEngine_RangeSearch ::
  "graph \<Rightarrow> (nat \<Rightarrow> real) \<Rightarrow> SearchConfig \<Rightarrow> real \<Rightarrow> engine_error + (int \<times> real) list" where
  "SearchEngine_RangeSearch g distance cfg threshold =
     Inr (hits_of g (best (layered_search g distance cfg (Within threshold))))"

text \<open>
  Modelled from the spec: the prefetch hints a \<open>KnnSearch\<close> issues.
\<close>

definition issued_hints :: "graph \<Rightarrow> (nat \<Rightarrow> real) \<Rightarrow> SearchConfig \<Rightarrow> hint list" where
  "issued_hints g distance cfg = hints (traverse g distance cfg)"

text \<open>
  Modelled from the spec: the id mapping (section 3), from an external id to the
  internal index of the live node that carries it.
\<close>

definition find_live :: "graph \<Rightarrow> int \<Rightarrow> nat option" where
  "find_live g label =
     (case filter (\<lambda>i. ext_id (nodes g ! i) = label \<and> \<not> tombstoned (nodes g ! i))
             [0..<length (nodes g)] of
        [] \<Rightarrow> None
      | i # rest \<Rightarrow> Some i)"

text \<open>
  Modelled from the spec: \<open>Remove(id)\<close> (sections 4.1, 4.2) tombstones the node and
  relinks nothing; on an absent or already tombstoned id it is a \<open>NotFoundError\<close>.
\<close>

definition GraphBuilder_Remove :: "int \<Rightarrow> graph \<Rightarrow> engine_error + graph" where
  "GraphBuilder_Remove label g =
     (case find_live g label of
        None \<Rightarrow> Inl NotFoundError
      | Some i \<Rightarrow> Inr (g\<lparr>nodes := (nodes g)[i := (nodes g ! i)\<lparr>tombstoned := True\<rparr>]\<rparr>))"

text \<open>
  Modelled from the spec: the \<open>Remove\<close> method of the index, as the binding calls it; how
  an error kind is reported as a \<^verbatim>\<open>vsag::Error\<close> is a parameter.
\<close>

definition index_Remove_of :: "(engine_error \<Rightarrow> Error) \<Rightarrow> graph remove_method" where
  "index_Remove_of report label g =
     (case GraphBuilder_Remove label g of
        Inl e \<Rightarrow> (Inl (report e), g)
      | Inr g' \<Rightarrow> (Inr True, g'))"

text \<open>
  Modelled from the spec: what \<open>Build\<close> and \<open>Add\<close> may change when they insert one
  vector (sections 3, 4.1, 4.2): a node is appended and neighbour lists may be rewritten,
  while the existing nodes keep their ids and their tombstones; the id of the new node is
  not the id of any node, live or tombstoned, since ids are not reused while tombstoned.
\<close>

definition add_step :: "graph \<Rightarrow> graph \<Rightarrow> bool" where
  "add_step g g' \<longleftrightarrow>
     length (nodes g') = Suc (length (nodes g)) \<and>
     (\<forall>i < length (nodes g).
        ext_id (nodes g' ! i) = ext_id (nodes g ! i) \<and>
        tombstoned (nodes g' ! i) = tombstoned (nodes g ! i)) \<and>
     ext_id (nodes g' ! length (nodes g)) \<notin> ext_id ` set (nodes g)"

text \<open>
  Modelled from the spec: the states an index reaches from a given one by removals
  and insertions.
\<close>

inductive later :: "graph \<Rightarrow> graph \<Rightarrow> bool" where
  later_refl: "later g g"
| later_remove: "later g g1 \<Longrightarrow> GraphBuilder_Remove label g1 = Inr g2 \<Longrightarrow> later g g2"
| later_add: "later g g1 \<Longrightarrow> add_step g1 g2 \<Longrightarrow> later g g2"

subsection \<open>Notions used to state the results\<close>

text \<open>
  The part of the search state that decides the result: everything but the hints.
\<close>

definition core :: "search_state \<Rightarrow> nat set \<times> (real \<times> nat) list \<times> (real \<times> nat) list" where
  "core st = (visited st, frontier st, best st)"

text \<open>
  The set of ids a search returns; a failed search returns none.
\<close>

definition result_ids :: "engine_error + (int \<times> real) list \<Rightarrow> int set" where
  "result_ids r = (case r of Inl e \<Rightarrow> {} | Inr hits \<Rightarrow> fst ` set hits)"

text \<open>
  Every candidate is a live node.
\<close>

definition only_live :: "graph \<Rightarrow> (real \<times> nat) list \<Rightarrow> bool" where
  "only_live g cands \<longleftrightarrow> (\<forall>x \<in> set cands. live g (snd x))"

text \<open>
  The ids of the nodes are pairwise distinct and the node with the given id is
  tombstoned.
\<close>

definition gone :: "int \<Rightarrow> graph \<Rightarrow> bool" where
  "gone label g \<longleftrightarrow>
     distinct (map ext_id (nodes g)) \<and>
     (\<exists>i < length (nodes g). ext_id (nodes g ! i) = label \<and> tombstoned (nodes g ! i))"

subsection \<open>A small index for the examples\<close>

text \<open>
  An index of three vectors on one layer, each linked to the other two.
\<close>

definition g3 :: graph where
  "g3 = \<lparr>nodes = [\<lparr>ext_id = 10, top_layer = 0, neighbors = [[1, 2]], tombstoned = False\<rparr>,
                  \<lparr>ext_id = 11, top_layer = 0, neighbors = [[0, 2]], tombstoned = False\<rparr>,
                  \<lparr>ext_id = 12, top_layer = 0, neighbors = [[0, 1]], tombstoned = False\<rparr>],
          entry_point = Some 0, max_layer = 0, vector_byte_size = 256\<rparr>"

text \<open>
  The distances of its nodes to the query of the examples.
\<close>

definition d3 :: "nat \<Rightarrow> real" where
  "d3 i = [3, 1, 2] ! i"

text \<open>
  A search configuration for the examples: \<open>ef_search = 3\<close> and the skip heuristic off.
\<close>

definition cfg0 :: "PrefetchConfig \<Rightarrow> SearchConfig" where
  "cfg0 p = \<lparr>cfg_ef_search = 3, cfg_skip_ratio = 1, cfg_prefetch = p\<rparr>"

text \<open>
  An error report for the examples.
\<close>

definition report0 :: "engine_error \<Rightarrow> Error" where
  "report0 e = \<lparr>type = ErrorType_other 0, message = ''not found''\<rparr>"

text \<open>
  The index of the examples once the id 11 is removed.
\<close>

definition g3_without_11 :: graph where
  "g3_without_11 =
     \<lparr>nodes = [\<lparr>ext_id = 10, top_layer = 0, neighbors = [[1, 2]], tombstoned = False\<rparr>,
               \<lparr>ext_id = 11, top_layer = 0, neighbors = [[0, 2]], tombstoned = True\<rparr>,
               \<lparr>ext_id = 12, top_layer = 0, neighbors = [[0, 1]], tombstoned = False\<rparr>],
       entry_point = Some 0, max_layer = 0, vector_byte_size = 256\<rparr>"

text \<open>
  Three search parameter values that differ in the prefetch configuration only.
\<close>

definition params_hardcoded :: HnswSearchParameters where
  "params_hardcoded = (HnswSearchParameters_default 3 False)\<lparr>skip_ratio := Finite 1\<rparr>"

definition params_custom :: HnswSearchParameters where
  "params_custom = params_hardcoded\<lparr>search_prefetch_mode := CUSTOM, prefetch_stride_codes := 1,
     prefetch_depth_codes := 2, prefetch_stride_visit := 1\<rparr>"

definition params_disabled :: HnswSearchParameters where
  "params_disabled = params_hardcoded\<lparr>search_prefetch_mode := DISABLED\<rparr>"

chapter \<open>Part II: what is proved\<close>

section \<open>Sparse ingestion\<close>

subsection \<open>Arrays and 32-bit counters\<close>

lemma shape_c_array [simp]: "shape (c_array sh xs) = sh"
  by (simp add: c_array_def)

lemma items_c_array [simp]: "items (c_array sh xs) = xs"
  by (simp add: c_array_def items_def)

lemma ndim_array1 [simp]: "ndim (array1 xs) = 1"
  by (simp add: ndim_def array1_def)

lemma shape_array1 [simp]: "shape (array1 xs) = [length xs]"
  by (simp add: array1_def)

lemma items_array1 [simp]: "items (array1 xs) = xs"
  by (simp add: array1_def)

lemma elements_array1 [simp]: "elements (array1 xs) = xs"
  by (rule nth_equalityI) (simp_all add: elements_def element_def array1_def c_array_def)

lemma c_contiguous_array1 [simp]: "c_contiguous (array1 xs)"
  by (simp add: c_contiguous_def array1_def c_array_def)

lemma in_buffer_array1 [simp]: "in_buffer (array1 xs)"
  by (simp add: in_buffer_def array1_def c_array_def list_all_iff)

text \<open>
  A C-contiguous 1-dimensional array is read through \<^verbatim>\<open>data()\<close> element by element.
\<close>

lemma contiguous_items:
  assumes "ndim a = 1" "c_contiguous a" "in_buffer a"
  shows "shape a ! 0 \<le> length (items a)"
    and "i < shape a ! 0 \<Longrightarrow> items a ! i = elements a ! i"
    and "length (elements a) = shape a ! 0"
proof -
  obtain n where sh: "shape a = [n]"
    using assms(1) by (cases "shape a") (auto simp: ndim_def)
  then have st: "strides a = [1]"
    using assms(2) by (simp add: c_contiguous_def)
  have inb: "offset a + j < length (buffer a)" if "j < n" for j
  proof -
    have "\<forall>i \<in> {0..<n}. int (offset a) + int i < int (length (buffer a))"
      using assms(3) sh st by (auto simp: in_buffer_def list_all_iff)
    then have "int (offset a) + int j < int (length (buffer a))"
      using that by simp
    then show ?thesis by linarith
  qed
  show "shape a ! 0 \<le> length (items a)"
  proof (cases n)
    case 0
    then show ?thesis using sh by simp
  next
    case (Suc m)
    then have "offset a + m < length (buffer a)"
      using inb[of m] by simp
    then show ?thesis
      using sh Suc by (simp add: items_def)
  qed
  show "length (elements a) = shape a ! 0"
    by (simp add: elements_def)
  show "items a ! i = elements a ! i" if "i < shape a ! 0"
  proof -
    have "i < n" using that sh by simp
    then have "offset a + i < length (buffer a)" by (rule inb)
    then have "items a ! i = buffer a ! (offset a + i)"
      by (simp add: items_def)
    moreover have "elements a ! i = buffer a ! (offset a + i)"
      using \<open>i < n\<close> sh st by (simp add: elements_def element_def nat_add_distrib)
    ultimately show ?thesis by simp
  qed
qed

lemma u32_wrap: "(4294967296 :: u32) = 0"
  by (simp add: word_unat_eq_iff)

lemma u32_max: "(4294967295 :: u32) = - 1"
  by (simp add: word_unat_eq_iff unsigned_minus_1_eq_mask mask_eq_exp_minus_1)

lemma unat_u32_max: "unat (- 1 :: u32) = 4294967295"
  by (simp add: unsigned_minus_1_eq_mask mask_eq_exp_minus_1)

lemma unat_succ:
  assumes "(i::u32) \<le> n" "n \<noteq> - 1"
  shows "unat (i + 1) = Suc (unat i)"
proof -
  have "unat n \<noteq> unat (- 1 :: u32)"
    using assms(2) by (simp add: word_unat_eq_iff)
  moreover have "unat n < 2 ^ 32"
    using unsigned_less[of n] by simp
  moreover have "unat i \<le> unat n"
    using assms(1) by (simp add: word_le_nat_alt)
  ultimately have "unat i + unat (1::u32) < 2 ^ LENGTH(32)"
    by (simp add: unsigned_minus_1_eq_mask mask_eq_exp_minus_1)
  then have "unat (i + 1) = unat i + unat (1::u32)"
    by (simp only: unat_add_lem)
  then show ?thesis by simp
qed

lemma unat_pred: "0 < unat (i::u32) \<Longrightarrow> unat (i - 1) = unat i - 1"
  by (rule unat_minus_one) (auto simp: unat_eq_zero)

lemma unat_diff: "(a::u32) \<le> b \<Longrightarrow> unat (b - a) = unat b - unat a"
  by (simp add: unat_sub)

lemma unat_count:
  assumes "2 \<le> length ptr" "length ptr < 2 ^ 32"
  shows "unat (of_nat (length ptr - 1) :: u32) = length ptr - 1"
    and "(of_nat (length ptr - 1) :: u32) \<noteq> - 1"
proof -
  have lt: "length ptr - 1 < 2 ^ LENGTH(32)"
    using assms by simp
  show u: "unat (of_nat (length ptr - 1) :: u32) = length ptr - 1"
    using lt by (simp add: unat_of_nat)
  have "unat (- 1 :: u32) = 2 ^ 32 - 1"
    by (simp add: unsigned_minus_1_eq_mask mask_eq_exp_minus_1)
  then show "(of_nat (length ptr - 1) :: u32) \<noteq> - 1"
    using u assms by auto
qed

subsection \<open>The monotonicity loop\<close>

text \<open>
  Below \<^verbatim>\<open>UINT32_MAX\<close> rows the loop returns: it throws exactly when some pointer from
  position \<open>i\<close> on is smaller than its predecessor.
\<close>

lemma check_pointers_returns:
  assumes "n \<noteq> - 1"
  shows "0 < unat i \<Longrightarrow> unat i \<le> unat n + 1 \<Longrightarrow>
     (if (\<exists>j. unat i \<le> j \<and> j \<le> unat n \<and> ptr ! j < ptr ! (j - 1))
      then (\<exists>m. check_pointers ptr n i = Some (Inl (invalid_argument m)))
      else check_pointers ptr n i = Some (Inr ()))"
proof (induction "unat n + 1 - unat i" arbitrary: i)
  case 0
  then have "\<not> i \<le> n"
    by (simp add: word_le_nat_alt)
  then have "check_pointers ptr n i = Some (Inr ())"
    by (subst check_pointers.simps) simp
  moreover have "\<not> (\<exists>j. unat i \<le> j \<and> j \<le> unat n \<and> ptr ! j < ptr ! (j - 1))"
    using 0 by auto
  ultimately show ?case by simp
next
  case (Suc k)
  then have le: "i \<le> n"
    by (simp add: word_le_nat_alt)
  have s: "unat (i + 1) = Suc (unat i)"
    using le assms by (rule unat_succ)
  have p: "unat (i - 1) = unat i - 1"
    using Suc.prems(1) by (rule unat_pred)
  show ?case
  proof (cases "ptr ! unat i < ptr ! (unat i - 1)")
    case True
    then have "\<exists>j. unat i \<le> j \<and> j \<le> unat n \<and> ptr ! j < ptr ! (j - 1)"
      using le by (auto simp: word_le_nat_alt)
    moreover have "\<exists>m. check_pointers ptr n i = Some (Inl (invalid_argument m))"
      using True le p by (subst check_pointers.simps) simp
    ultimately show ?thesis by simp
  next
    case False
    have step: "check_pointers ptr n i = check_pointers ptr n (i + 1)"
      using False le p by (subst check_pointers.simps) simp
    have k: "k = unat n + 1 - unat (i + 1)"
      using Suc.hyps(2) s by simp
    have ih: "(if (\<exists>j. unat (i + 1) \<le> j \<and> j \<le> unat n \<and> ptr ! j < ptr ! (j - 1))
      then (\<exists>m. check_pointers ptr n (i + 1) = Some (Inl (invalid_argument m)))
      else check_pointers ptr n (i + 1) = Some (Inr ()))"
      using Suc.hyps(1)[OF k] s le by (simp add: word_le_nat_alt)
    have eq: "(\<exists>j. unat i \<le> j \<and> j \<le> unat n \<and> ptr ! j < ptr ! (j - 1)) \<longleftrightarrow>
              (\<exists>j. unat (i + 1) \<le> j \<and> j \<le> unat n \<and> ptr ! j < ptr ! (j - 1))"
      using False s by (metis Suc_leD Suc_leI le_neq_implies_less)
    show ?thesis using ih unfolding step eq .
  qed
qed

lemma check_pointers_zero: "check_pointers ptr 0 1 = Some (Inr ())"
  by (subst check_pointers.simps) simp

text \<open>
  The loop reads the positions up to \<^verbatim>\<open>num_elements\<close> only.
\<close>

lemma check_pointers_reads:
  assumes "n \<noteq> - 1" "\<forall>j \<le> unat n. p ! j = q ! j"
  shows "0 < unat i \<Longrightarrow> unat i \<le> unat n + 1 \<Longrightarrow> check_pointers p n i = check_pointers q n i"
proof (induction "unat n + 1 - unat i" arbitrary: i)
  case 0
  then have "\<not> i \<le> n"
    by (simp add: word_le_nat_alt)
  then have "check_pointers p n i = Some (Inr ())" "check_pointers q n i = Some (Inr ())"
    by (subst check_pointers.simps, simp)+
  then show ?case by simp
next
  case (Suc k)
  then have le: "i \<le> n"
    by (simp add: word_le_nat_alt)
  have s: "unat (i + 1) = Suc (unat i)"
    using le assms(1) by (rule unat_succ)
  have pr: "unat (i - 1) = unat i - 1"
    using Suc.prems(1) by (rule unat_pred)
  have "unat i \<le> unat n" "unat (i - 1) \<le> unat n"
    using le pr by (simp_all add: word_le_nat_alt)
  then have same: "p ! unat i = q ! unat i" "p ! unat (i - 1) = q ! unat (i - 1)"
    using assms(2) by simp_all
  have k: "k = unat n + 1 - unat (i + 1)"
    using Suc.hyps(2) s by simp
  have ih: "check_pointers p n (i + 1) = check_pointers q n (i + 1)"
    using Suc.hyps(1)[OF k] s le by (simp add: word_le_nat_alt)
  have "check_pointers p n i =
     (if i \<le> n then
        (if p ! unat i < p ! unat (i - 1) then
           Some (Inl (invalid_argument
             (Format ''index_pointers[{}]({}) > index_pointers[{}]({})''
                [Num (uint (i - 1)), Num (uint (p ! unat (i - 1))),
                 Num (uint i), Num (uint (p ! unat i))])))
         else check_pointers p n (i + 1))
      else Some (Inr ()))"
    by (rule check_pointers.simps)
  also have "\<dots> =
     (if i \<le> n then
        (if q ! unat i < q ! unat (i - 1) then
           Some (Inl (invalid_argument
             (Format ''index_pointers[{}]({}) > index_pointers[{}]({})''
                [Num (uint (i - 1)), Num (uint (q ! unat (i - 1))),
                 Num (uint i), Num (uint (q ! unat i))])))
         else check_pointers q n (i + 1))
      else Some (Inr ()))"
    by (simp only: same ih)
  also have "\<dots> = check_pointers q n i"
    by (rule check_pointers.simps[symmetric])
  finally show ?case .
qed

lemma check_from_one:
  assumes "2 \<le> length ptr" "length ptr < 2 ^ 32"
    and n: "n = (of_nat (length ptr - 1) :: u32)"
  shows "(if (\<exists>i. 0 < i \<and> i < length ptr \<and> ptr ! i < ptr ! (i - 1))
      then (\<exists>m. check_pointers ptr n 1 = Some (Inl (invalid_argument m)))
      else check_pointers ptr n 1 = Some (Inr ()))"
proof -
  have u: "unat n = length ptr - 1" and m: "n \<noteq> - 1"
    using unat_count[OF assms(1,2)] n by simp_all
  have "0 < unat (1::u32)" "unat (1::u32) \<le> unat n + 1"
    by simp_all
  from check_pointers_returns[OF m this, of ptr]
  have "(if (\<exists>j. unat (1::u32) \<le> j \<and> j \<le> unat n \<and> ptr ! j < ptr ! (j - 1))
      then (\<exists>m. check_pointers ptr n 1 = Some (Inl (invalid_argument m)))
      else check_pointers ptr n 1 = Some (Inr ()))" .
  moreover have "(\<exists>j. unat (1::u32) \<le> j \<and> j \<le> unat n \<and> ptr ! j < ptr ! (j - 1)) \<longleftrightarrow>
     (\<exists>i. 0 < i \<and> i < length ptr \<and> ptr ! i < ptr ! (i - 1))"
  proof -
    have "\<And>j. (unat (1::u32) \<le> j \<and> j \<le> unat n) \<longleftrightarrow> (0 < j \<and> j < length ptr)"
      using assms(1) u by auto
    then show ?thesis by metis
  qed
  ultimately show ?thesis by (simp only:)
qed

subsection \<open>What the ingestion returns below \<open>2^32\<close> pointer entries\<close>

lemma nth_count:
  assumes "2 \<le> length ptr" "length ptr < 2 ^ 32"
    and n: "n = (of_nat (length ptr - 1) :: u32)"
  shows "ptr ! unat n = last ptr"
proof -
  have "ptr \<noteq> []"
    using assms(1) by auto
  then show ?thesis
    using unat_count(1)[OF assms(1,2)] n by (simp add: last_conv_nth)
qed

lemma Build_unfold:
  assumes "2 \<le> length ptr" "length ptr < 2 ^ 32"
    and n: "n = (of_nat (length ptr - 1) :: u32)"
    and d: "ndim indices = 1" "ndim values = 1"
  shows "BuildSparseVectorsFromCSR (array1 ptr) indices values =
     (if unat (last ptr) \<noteq> shape indices ! 0 then
        Some (Inl (invalid_argument
          (Format ''Size of 'indices'({}) must equal index_pointers[last]''
             [Num (int (shape indices ! 0)), Num (uint (last ptr))])))
      else if unat (last ptr) \<noteq> shape values ! 0 then
        Some (Inl (invalid_argument
          (Format ''Size of 'values'({}) must equal index_pointers[last]({})''
             [Num (int (shape values ! 0)), Num (uint (last ptr))])))
      else if ptr ! 0 \<noteq> 0 then
        Some (Inl (invalid_argument (Text ''index_pointers[0] must be 0'')))
      else
        (case check_pointers ptr n 1 of
           None \<Rightarrow> None
         | Some (Inl e) \<Rightarrow> Some (Inl e)
         | Some (Inr u) \<Rightarrow>
             Some (Inr \<lparr>sparse_vectors = map (fill_row ptr) [0..<length ptr - 1],
                        num_elements = n, num_non_zeros = last ptr\<rparr>)))"
proof -
  have a: "\<not> length ptr < 2"
    using assms(1) by simp
  have c: "unat n = length ptr - 1"
    using unat_count(1)[OF assms(1,2)] n by simp
  have b: "ptr ! (length ptr - 1) = last ptr"
    using nth_count[OF assms(1,2) n] c by simp
  have g: "\<not> length ptr \<le> length ptr - 1"
    using assms(1) by simp
  show ?thesis
    unfolding BuildSparseVectorsFromCSR_def
    by (simp only: ndim_array1 shape_array1 items_array1 nth_Cons_0 a b c d g n[symmetric] Let_def
        simp_thms if_False)
qed

lemma Build_rejects:
  assumes "2 \<le> length ptr" "length ptr < 2 ^ 32"
    and "ndim indices = 1" "ndim values = 1"
    and "csr_malformed ptr (shape indices ! 0) (shape values ! 0)"
  shows "\<exists>m. BuildSparseVectorsFromCSR (array1 ptr) indices values
            = Some (Inl (invalid_argument m))"
proof (cases "\<exists>i. 0 < i \<and> i < length ptr \<and> ptr ! i < ptr ! (i - 1)")
  case True
  define n where n: "n = (of_nat (length ptr - 1) :: u32)"
  from True obtain m where "check_pointers ptr n 1 = Some (Inl (invalid_argument m))"
    using check_from_one[OF assms(1,2) n] by (auto simp only: if_True)
  then show ?thesis
    by (simp add: Build_unfold[OF assms(1,2) n assms(3,4)])
next
  case False
  then have "ptr ! 0 \<noteq> 0 \<or> shape indices ! 0 \<noteq> unat (last ptr) \<or>
      shape values ! 0 \<noteq> unat (last ptr)"
    using assms(5) by (auto simp: csr_malformed_def)
  then show ?thesis
    by (auto simp: Build_unfold[OF assms(1,2) refl assms(3,4)])
qed

lemma Build_accepts:
  assumes "2 \<le> length ptr" "length ptr < 2 ^ 32"
    and "ndim indices = 1" "ndim values = 1"
    and "\<not> csr_malformed ptr (shape indices ! 0) (shape values ! 0)"
  shows "BuildSparseVectorsFromCSR (array1 ptr) indices values
           = Some (Inr \<lparr>sparse_vectors = map (fill_row ptr) [0..<length ptr - 1],
                        num_elements = of_nat (length ptr - 1),
                        num_non_zeros = last ptr\<rparr>)"
proof -
  define n where n: "n = (of_nat (length ptr - 1) :: u32)"
  have "\<not> (\<exists>i. 0 < i \<and> i < length ptr \<and> ptr ! i < ptr ! (i - 1))"
    using assms(5) by (auto simp: csr_malformed_def)
  then have c: "check_pointers ptr n 1 = Some (Inr ())"
    using check_from_one[OF assms(1,2) n] by (simp only: if_False)
  have "ptr ! 0 = 0" "shape indices ! 0 = unat (last ptr)" "shape values ! 0 = unat (last ptr)"
    using assms(5) by (auto simp: csr_malformed_def)
  then show ?thesis
    using c by (simp add: Build_unfold[OF assms(1,2) n assms(3,4)] n)
qed

text \<open>
  An accepted input has passed the first two checks.
\<close>

lemma Build_accepted:
  assumes "BuildSparseVectorsFromCSR index_pointers indices values = Some (Inr svs)"
  shows "ndim index_pointers = 1 \<and> ndim indices = 1 \<and> ndim values = 1 \<and>
         2 \<le> shape index_pointers ! 0"
proof (rule ccontr)
  assume "\<not> ?thesis"
  then have "ndim index_pointers \<noteq> 1 \<or> ndim indices \<noteq> 1 \<or> ndim values \<noteq> 1 \<or>
      shape index_pointers ! 0 < 2"
    by auto
  then have "\<exists>m. BuildSparseVectorsFromCSR index_pointers indices values =
      Some (Inl (invalid_argument m))"
    by (auto simp: BuildSparseVectorsFromCSR_def)
  then show False
    using assms by auto
qed

text \<open>
  On a C-contiguous pointer array of fewer than \<open>2^32\<close> entries the ingestion works on the
  elements of the array.
\<close>

lemma Build_contiguous:
  assumes "ndim index_pointers = 1" "c_contiguous index_pointers" "in_buffer index_pointers"
    and "2 \<le> shape index_pointers ! 0" "shape index_pointers ! 0 < 2 ^ 32"
  shows "BuildSparseVectorsFromCSR index_pointers indices values =
         BuildSparseVectorsFromCSR (array1 (elements index_pointers)) indices values"
proof -
  let ?raw = "items index_pointers" and ?ptr = "elements index_pointers"
  define n where n: "n = (of_nat (shape index_pointers ! 0 - 1) :: u32)"
  have len: "length ?ptr = shape index_pointers ! 0"
    and long: "shape index_pointers ! 0 \<le> length ?raw"
    and same: "\<And>i. i < shape index_pointers ! 0 \<Longrightarrow> ?raw ! i = ?ptr ! i"
    using contiguous_items[OF assms(1-3)] by simp_all
  have u: "unat n = shape index_pointers ! 0 - 1" and m: "n \<noteq> - 1"
    using unat_count[of ?ptr] assms(4,5) len n by simp_all
  have upto: "\<forall>j \<le> unat n. ?raw ! j = ?ptr ! j"
    using same u assms(4) by auto
  have guard: "\<not> length ?raw \<le> unat n" "\<not> shape index_pointers ! 0 \<le> unat n"
    using long u assms(4) by simp_all
  have c: "check_pointers ?raw n 1 = check_pointers ?ptr n 1"
    using m upto by (rule check_pointers_reads) simp_all
  have r: "map (fill_row ?raw) [0..<unat n] = map (fill_row ?ptr) [0..<unat n]"
    using upto by (auto simp: fill_row_def Let_def)
  have e: "?raw ! unat n = ?ptr ! unat n" "?raw ! 0 = ?ptr ! 0"
    using upto by simp_all
  show ?thesis
    unfolding BuildSparseVectorsFromCSR_def
    by (simp only: ndim_array1 shape_array1 items_array1 nth_Cons_0 len n[symmetric] Let_def
        guard c r e assms(1) simp_thms)
qed

text \<open>A pointer smaller than its predecessor is the same as the list not being sorted.\<close>

lemma csr_malformed_sorted:
  "csr_malformed ptr a b \<longleftrightarrow>
     ptr ! 0 \<noteq> 0 \<or> \<not> sorted ptr \<or> a \<noteq> unat (last ptr) \<or> b \<noteq> unat (last ptr)"
proof -
  have "(\<exists>i. 0 < i \<and> i < length ptr \<and> ptr ! i < ptr ! (i - 1)) \<longleftrightarrow> \<not> sorted ptr"
  proof
    assume "\<exists>i. 0 < i \<and> i < length ptr \<and> ptr ! i < ptr ! (i - 1)"
    then obtain i where i: "0 < i" "i < length ptr" "ptr ! i < ptr ! (i - 1)"
      by blast
    then have "Suc (i - 1) < length ptr" "\<not> ptr ! (i - 1) \<le> ptr ! Suc (i - 1)"
      by auto
    then show "\<not> sorted ptr"
      unfolding sorted_iff_nth_Suc by blast
  next
    assume "\<not> sorted ptr"
    then obtain i where "Suc i < length ptr" "\<not> ptr ! i \<le> ptr ! Suc i"
      unfolding sorted_iff_nth_Suc by blast
    then have "0 < Suc i \<and> Suc i < length ptr \<and> ptr ! Suc i < ptr ! (Suc i - 1)"
      by auto
    then show "\<exists>i. 0 < i \<and> i < length ptr \<and> ptr ! i < ptr ! (i - 1)"
      by blast
  qed
  then show ?thesis
    by (simp add: csr_malformed_def)
qed

subsection \<open>Claims C2, C5 and C10\<close>

text \<open>
  Claim C2, as amended. For every 1-dimensional CSR triple whose pointer array is
  C-contiguous and has at least two and fewer than \<open>2^32\<close> entries, the ingestion rejects the
  input with an \<^verbatim>\<open>invalid_argument\<close> exception if and only if the first pointer is not 0, or
  some pointer is smaller than its predecessor, or the length of \<open>indices\<close> or of \<open>values\<close>
  differs from the last pointer; every other such input is accepted.
\<close>

theorem csr_validation_bounded:
  assumes "ndim index_pointers = 1" "ndim indices = 1" "ndim values = 1"
    and "c_contiguous index_pointers" "in_buffer index_pointers"
    and "2 \<le> shape index_pointers ! 0" "shape index_pointers ! 0 < 2 ^ 32"
  shows "((\<exists>m. BuildSparseVectorsFromCSR index_pointers indices values
                = Some (Inl (invalid_argument m)))
            \<longleftrightarrow> csr_malformed (elements index_pointers) (shape indices ! 0) (shape values ! 0)) \<and>
         ((\<exists>svs. BuildSparseVectorsFromCSR index_pointers indices values = Some (Inr svs))
            \<longleftrightarrow> \<not> csr_malformed (elements index_pointers) (shape indices ! 0) (shape values ! 0))"
proof -
  let ?ptr = "elements index_pointers"
  have len: "2 \<le> length ?ptr" "length ?ptr < 2 ^ 32"
    using contiguous_items(3)[OF assms(1,4,5)] assms(6,7) by simp_all
  have b: "BuildSparseVectorsFromCSR index_pointers indices values =
           BuildSparseVectorsFromCSR (array1 ?ptr) indices values"
    using assms(1,4,5,6,7) by (rule Build_contiguous)
  show ?thesis
  proof (cases "csr_malformed ?ptr (shape indices ! 0) (shape values ! 0)")
    case True
    from Build_rejects[OF len assms(2,3) True] show ?thesis
      using True b by auto
  next
    case False
    from Build_accepts[OF len assms(2,3) False] show ?thesis
      using False b by auto
  qed
qed

theorem csr_validation_bounded_witness:
  "(\<exists>m. BuildSparseVectorsFromCSR (array1 [1, 2]) (array1 [7, 8]) (array1 [Finite 1, Finite 2])
        = Some (Inl (invalid_argument m))) \<and>
   (\<exists>svs. BuildSparseVectorsFromCSR (array1 [0, 2, 5, 6]) (array1 [0, 3, 1, 2, 4, 0])
       (array1 [Finite 1, Finite 2, Finite 3, Finite 4, Finite 5, Finite 6]) = Some (Inr svs))"
proof -
  have "csr_malformed [1, 2] (length [7, 8 :: u32]) (length [Finite 1, Finite 2])"
    by (simp add: csr_malformed_sorted)
  moreover have "\<not> csr_malformed [0, 2, 5, 6] (length [0, 3, 1, 2, 4, 0 :: u32])
      (length [Finite 1, Finite 2, Finite 3, Finite 4, Finite 5, Finite 6])"
    by (simp add: csr_malformed_sorted)
  ultimately show ?thesis
    using csr_validation_bounded[of "array1 [1, 2]" "array1 [7, 8]" "array1 [Finite 1, Finite 2]"]
      csr_validation_bounded[of "array1 [0, 2, 5, 6]" "array1 [0, 3, 1, 2, 4, 0]"
        "array1 [Finite 1, Finite 2, Finite 3, Finite 4, Finite 5, Finite 6]"]
    by simp
qed

text \<open>
  Claim C2 as stated fails: \<^verbatim>\<open>uint32_t num_elements = buf_ptr.shape[0] - 1\<close> keeps only the
  low 32 bits of the row count. A pointer array of \<open>2^32 + 1\<close> entries is read as a batch of
  zero rows, so its last pointer 5 is never compared with the empty \<open>indices\<close> and
  \<open>values\<close>: the malformed input is accepted.
\<close>

theorem csr_validation_counterexample:
  "csr_malformed (replicate 4294967296 0 @ [5]) (length ([] :: u32 list)) (length ([] :: f32 list)) \<and>
   BuildSparseVectorsFromCSR (array1 (replicate 4294967296 0 @ [5])) (array1 [])
       (array1 ([] :: f32 list))
     = Some (Inr \<lparr>sparse_vectors = [], num_elements = 0, num_non_zeros = 0\<rparr>)"
proof
  show "csr_malformed (replicate 4294967296 0 @ [5]) (length ([] :: u32 list))
      (length ([] :: f32 list))"
    by (simp add: csr_malformed_def)
  show "BuildSparseVectorsFromCSR (array1 (replicate 4294967296 0 @ [5])) (array1 [])
       (array1 ([] :: f32 list))
     = Some (Inr \<lparr>sparse_vectors = [], num_elements = 0, num_non_zeros = 0\<rparr>)"
    by (simp add: BuildSparseVectorsFromCSR_def nth_append check_pointers_zero u32_wrap)
qed

text \<open>
  The rows of an accepted list of pointers.
\<close>

lemma rows_of_pointers:
  assumes "2 \<le> length ptr" "length ptr < 2 ^ 32"
    and "BuildSparseVectorsFromCSR (array1 ptr) indices values = Some (Inr svs)"
  shows "length (sparse_vectors svs) = length ptr - 1 \<and>
         unat (num_elements svs) = length ptr - 1 \<and>
         (\<forall>i < length ptr - 1.
            unat (ptr ! i) \<le> unat (ptr ! (i + 1)) \<and>
            unat (sv_len (sparse_vectors svs ! i)) = unat (ptr ! (i + 1)) - unat (ptr ! i))"
proof -
  have d: "ndim indices = 1" "ndim values = 1"
    using Build_accepted[OF assms(3)] by simp_all
  have ok: "\<not> csr_malformed ptr (shape indices ! 0) (shape values ! 0)"
    using Build_rejects[OF assms(1,2) d] assms(3) by auto
  then have s: "svs = \<lparr>sparse_vectors = map (fill_row ptr) [0..<length ptr - 1],
                        num_elements = of_nat (length ptr - 1),
                        num_non_zeros = last ptr\<rparr>"
    using Build_accepts[OF assms(1,2) d ok] assms(3) by simp
  have ex: "\<not> (\<exists>i. 0 < i \<and> i < length ptr \<and> ptr ! i < ptr ! (i - 1))"
    using ok by (simp add: csr_malformed_def)
  have mono: "ptr ! i \<le> ptr ! Suc i" if "i < length ptr - 1" for i
  proof (rule ccontr)
    assume "\<not> ptr ! i \<le> ptr ! Suc i"
    then have "0 < Suc i \<and> Suc i < length ptr \<and> ptr ! Suc i < ptr ! (Suc i - 1)"
      using that by (auto simp: not_le)
    then show False
      using ex by blast
  qed
  have row: "unat (ptr ! i) \<le> unat (ptr ! (i + 1)) \<and>
            unat (sv_len (sparse_vectors svs ! i)) = unat (ptr ! (i + 1)) - unat (ptr ! i)"
    if "i < length ptr - 1" for i
  proof -
    have m: "ptr ! i \<le> ptr ! Suc i"
      using that by (rule mono)
    have "sparse_vectors svs ! i = fill_row ptr i"
      using that by (simp add: s)
    then have "unat (sv_len (sparse_vectors svs ! i)) = unat (ptr ! Suc i - ptr ! i)"
      by (simp add: fill_row_def Let_def)
    also have "\<dots> = unat (ptr ! Suc i) - unat (ptr ! i)"
      using m by (rule unat_diff)
    finally show ?thesis
      using m by (simp add: word_le_nat_alt)
  qed
  have l: "length (sparse_vectors svs) = length ptr - 1"
    by (simp add: s)
  have n: "unat (num_elements svs) = length ptr - 1"
    using unat_count(1)[OF assms(1,2)] by (simp add: s)
  from l n row show ?thesis by blast
qed

text \<open>
  Claim C5, as amended. For every accepted CSR input whose pointer array is C-contiguous
  and has fewer than \<open>2^32\<close> entries, the batch holds (length of \<open>index_pointers\<close> minus 1)
  sparse vectors and the \<open>i\<close>-th has nonzero count \<open>index_pointers[i+1] - index_pointers[i]\<close>.
  The witness is the specification's example: pointers \<open>[0,2,5,6]\<close> give the counts
  \<open>[2,3,1]\<close>.
\<close>

theorem csr_rows_bounded:
  assumes "c_contiguous index_pointers" "in_buffer index_pointers"
    and "shape index_pointers ! 0 < 2 ^ 32"
    and "BuildSparseVectorsFromCSR index_pointers indices values = Some (Inr svs)"
  shows "length (sparse_vectors svs) = shape index_pointers ! 0 - 1 \<and>
         unat (num_elements svs) = shape index_pointers ! 0 - 1 \<and>
         (\<forall>i < shape index_pointers ! 0 - 1.
            unat (element index_pointers i) \<le> unat (element index_pointers (i + 1)) \<and>
            unat (sv_len (sparse_vectors svs ! i)) =
              unat (element index_pointers (i + 1)) - unat (element index_pointers i))"
proof -
  let ?ptr = "elements index_pointers"
  have d: "ndim index_pointers = 1" "2 \<le> shape index_pointers ! 0"
    using Build_accepted[OF assms(4)] by simp_all
  have len: "length ?ptr = shape index_pointers ! 0"
    by (simp add: elements_def)
  have b: "BuildSparseVectorsFromCSR (array1 ?ptr) indices values = Some (Inr svs)"
    using assms(4) unfolding Build_contiguous[OF d(1) assms(1,2) d(2) assms(3)] .
  have e: "?ptr ! i = element index_pointers i" if "i < shape index_pointers ! 0" for i
    using that by (simp add: elements_def)
  have rows: "length (sparse_vectors svs) = length ?ptr - 1 \<and>
         unat (num_elements svs) = length ?ptr - 1 \<and>
         (\<forall>i < length ?ptr - 1.
            unat (?ptr ! i) \<le> unat (?ptr ! (i + 1)) \<and>
            unat (sv_len (sparse_vectors svs ! i)) = unat (?ptr ! (i + 1)) - unat (?ptr ! i))"
    using d(2) assms(3) b unfolding len[symmetric] by (intro rows_of_pointers) simp_all
  have "unat (element index_pointers i) \<le> unat (element index_pointers (i + 1)) \<and>
        unat (sv_len (sparse_vectors svs ! i)) =
          unat (element index_pointers (i + 1)) - unat (element index_pointers i)"
    if "i < shape index_pointers ! 0 - 1" for i
  proof -
    have "i < shape index_pointers ! 0" "i + 1 < shape index_pointers ! 0"
      using that by simp_all
    then have "?ptr ! i = element index_pointers i" "?ptr ! (i + 1) = element index_pointers (i + 1)"
      by (simp_all only: e)
    moreover have "unat (?ptr ! i) \<le> unat (?ptr ! (i + 1)) \<and>
        unat (sv_len (sparse_vectors svs ! i)) = unat (?ptr ! (i + 1)) - unat (?ptr ! i)"
      using rows that len by simp
    ultimately show ?thesis by simp
  qed
  then show ?thesis
    using rows len by simp
qed

theorem csr_rows_bounded_witness:
  "\<exists>svs. BuildSparseVectorsFromCSR (array1 [0, 2, 5, 6]) (array1 [0, 3, 1, 2, 4, 0])
       (array1 [Finite 1, Finite 2, Finite 3, Finite 4, Finite 5, Finite 6]) = Some (Inr svs) \<and>
     map (\<lambda>v. unat (sv_len v)) (sparse_vectors svs) = [2, 3, 1]"
proof -
  have "\<not> csr_malformed [0, 2, 5, 6] (shape (array1 [0, 3, 1, 2, 4, 0 :: u32]) ! 0)
      (shape (array1 [Finite 1, Finite 2, Finite 3, Finite 4, Finite 5, Finite 6]) ! 0)"
    by (simp add: csr_malformed_sorted)
  then obtain svs where
    b: "BuildSparseVectorsFromCSR (array1 [0, 2, 5, 6]) (array1 [0, 3, 1, 2, 4, 0])
       (array1 [Finite 1, Finite 2, Finite 3, Finite 4, Finite 5, Finite 6]) = Some (Inr svs)"
    using Build_accepts[of "[0, 2, 5, 6]" "array1 [0, 3, 1, 2, 4, 0]"
        "array1 [Finite 1, Finite 2, Finite 3, Finite 4, Finite 5, Finite 6]"] by simp
  have len: "length (sparse_vectors svs) = 3"
    and rows: "\<forall>i < 3. unat (sv_len (sparse_vectors svs ! i)) =
                 unat (element (array1 [0, 2, 5, 6 :: u32]) (i + 1)) -
                 unat (element (array1 [0, 2, 5, 6 :: u32]) i)"
    using csr_rows_bounded[OF _ _ _ b] by simp_all
  have el: "element (array1 [0, 2, 5, 6 :: u32]) i = [0, 2, 5, 6] ! i" for i
    by (simp add: element_def array1_def c_array_def)
  have "unat (sv_len (sparse_vectors svs ! 0)) = 2" "unat (sv_len (sparse_vectors svs ! 1)) = 3"
    "unat (sv_len (sparse_vectors svs ! 2)) = 1"
    using rows by (simp_all add: el numeral_3_eq_3)
  moreover obtain x y z where "sparse_vectors svs = [x, y, z]"
    using len by (auto simp: length_Suc_conv numeral_3_eq_3)
  ultimately have "map (\<lambda>v. unat (sv_len v)) (sparse_vectors svs) = [2, 3, 1]"
    by (simp add: numeral_2_eq_2)
  with b show ?thesis by (intro exI conjI)
qed

text \<open>
  Claim C5 as stated fails for the same reason as C2: \<open>2^32 + 1\<close> zero pointers with empty
  \<open>indices\<close> and \<open>values\<close> are a well-formed CSR batch of \<open>2^32\<close> empty rows, and the
  ingestion accepts it as a batch of zero vectors.
\<close>

theorem csr_rows_counterexample:
  "BuildSparseVectorsFromCSR (array1 (replicate 4294967297 0)) (array1 []) (array1 ([] :: f32 list))
     = Some (Inr \<lparr>sparse_vectors = [], num_elements = 0, num_non_zeros = 0\<rparr>) \<and>
   length (sparse_vectors \<lparr>sparse_vectors = [], num_elements = 0, num_non_zeros = 0\<rparr>)
     \<noteq> length (replicate 4294967297 (0 :: u32)) - 1"
  by (simp add: BuildSparseVectorsFromCSR_def check_pointers_zero u32_wrap)

text \<open>
  Claim C10. A pointer array with fewer than two entries is rejected with an
  \<^verbatim>\<open>invalid_argument\<close> exception, whatever the other two arrays are; for 1-dimensional
  arrays the message is the one of the length check. The witness is the zero-element batch
  \<open>index_pointers = [0]\<close> with empty \<open>indices\<close> and \<open>values\<close>.
\<close>

theorem csr_short_pointers_rejected:
  assumes "length ptr < 2"
  shows "(\<exists>m. BuildSparseVectorsFromCSR (array1 ptr) indices (values :: 'f py_array)
              = Some (Inl (invalid_argument m))) \<and>
         BuildSparseVectorsFromCSR (array1 ptr) (array1 idx) (array1 (val :: 'f list)) =
           Some (Inl (invalid_argument (Text ''index_pointers length must be at least 2'')))"
  using assms by (simp add: BuildSparseVectorsFromCSR_def)

theorem csr_short_pointers_rejected_witness:
  "BuildSparseVectorsFromCSR (array1 [0]) (array1 []) (array1 ([] :: f32 list)) =
     Some (Inl (invalid_argument (Text ''index_pointers length must be at least 2'')))"
  using csr_short_pointers_rejected[of "[0]" "array1 []" "array1 ([] :: f32 list)" "[]" "[]"]
  by simp

subsection \<open>The 32-bit limit is sharp\<close>

text \<open>
  At exactly \<open>2^32\<close> pointer entries the row count is \<^verbatim>\<open>UINT32_MAX\<close> and the loop guard
  \<open>i \<le> num_elements\<close> holds for every counter: on \<open>2^32\<close> zero pointers, a well-formed batch
  of empty rows, the ingestion never returns. So the bound of the amended claims C2 and C5
  cannot be raised.
\<close>

lemma check_pointers_stuck:
  assumes "check_pointers p n i = Some y"
  shows "n = - 1 \<longrightarrow> (\<forall>j < 4294967296. p ! j = 0) \<longrightarrow> False"
proof (rule check_pointers.raw_induct
    [where P = "\<lambda>p n i y. n = - 1 \<longrightarrow> (\<forall>j < 4294967296. p ! j = 0) \<longrightarrow> False", OF _ assms])
  fix check :: "u32 list \<Rightarrow> u32 \<Rightarrow> u32 \<Rightarrow> (exception + unit) option"
  fix p :: "u32 list" and n i :: u32 and y :: "exception + unit"
  assume ih: "\<And>p n i y. check p n i = Some y \<Longrightarrow>
      n = - 1 \<longrightarrow> (\<forall>j < 4294967296. p ! j = 0) \<longrightarrow> False"
  assume body: "(if i \<le> n
      then if p ! unat i < p ! unat (i - 1)
           then Some (Inl (invalid_argument
                  (Format ''index_pointers[{}]({}) > index_pointers[{}]({})''
                     [Num (uint (i - 1)), Num (uint (p ! unat (i - 1))),
                      Num (uint i), Num (uint (p ! unat i))])))
           else check p n (i + 1)
      else Some (Inr ())) = Some y"
  show "n = - 1 \<longrightarrow> (\<forall>j < 4294967296. p ! j = 0) \<longrightarrow> False"
  proof (intro impI)
    assume n: "n = - 1" and z: "\<forall>j < 4294967296. p ! j = 0"
    have "unat i < 4294967296" "unat (i - 1) < 4294967296"
      using unsigned_less[of i] unsigned_less[of "i - 1"] by simp_all
    then have "p ! unat i = 0" "p ! unat (i - 1) = 0"
      using z by simp_all
    then have "check p n (i + 1) = Some y"
      using body n by simp
    then show False
      using ih n z by blast
  qed
qed

lemma check_pointers_never_returns:
  assumes "\<forall>j < 4294967296. ptr ! j = 0"
  shows "check_pointers ptr (- 1) i = None"
  using check_pointers_stuck[of ptr "- 1" i] assms by (cases "check_pointers ptr (- 1) i") auto

lemma csr_full_batch_diverges:
  "\<not> csr_malformed (replicate 4294967296 0) (length ([] :: u32 list)) (length ([] :: f32 list)) \<and>
   BuildSparseVectorsFromCSR (array1 (replicate 4294967296 0)) (array1 []) (array1 ([] :: f32 list))
     = None"
proof
  show "\<not> csr_malformed (replicate 4294967296 0) (length ([] :: u32 list)) (length ([] :: f32 list))"
    by (simp add: csr_malformed_def)
  have "check_pointers (replicate 4294967296 0) (- 1) 1 = None"
    by (rule check_pointers_never_returns) simp
  then show "BuildSparseVectorsFromCSR (array1 (replicate 4294967296 0)) (array1 [])
      (array1 ([] :: f32 list)) = None"
    by (simp add: BuildSparseVectorsFromCSR_def u32_max Let_def unat_u32_max)
qed

subsection \<open>A pointer array that is not C-contiguous\<close>

text \<open>
  The dense path of the binding takes its arrays as \<^verbatim>\<open>c_style\<close> arrays, which pybind11
  hands over in C order. The sparse path takes \<^verbatim>\<open>py::array_t<uint32_t>\<close> and reads the
  pointers through \<^verbatim>\<open>data()\<close> without a look at the strides, so of a view that is not
  C-contiguous it reads the buffer and not the elements. The view \<^verbatim>\<open>base[::2]\<close> of
  \<open>[0,2,5,6,0,0,0]\<close> has the elements \<open>[0,5,0,0]\<close>, which are malformed whatever \<open>indices\<close>
  and \<open>values\<close> are; the ingestion reads \<open>[0,2,5,6]\<close> and accepts it with six nonzeros. The
  amended claims C2 and C5 say nothing about such views.
\<close>

lemma strided_pointers_loop: "check_pointers [0, 2, 5, 6, 0, 0, 0] 3 1 = Some (Inr ())"
  by (simp add: check_pointers.simps)

lemma csr_strided_view_accepted:
  "ndim strided_pointers = 1 \<and> in_buffer strided_pointers \<and> \<not> c_contiguous strided_pointers \<and>
   elements strided_pointers = [0, 5, 0, 0] \<and>
   csr_malformed (elements strided_pointers) 6 6 \<and>
   BuildSparseVectorsFromCSR strided_pointers (array1 [0, 3, 1, 2, 4, 0])
       (array1 [Finite 1, Finite 2, Finite 3, Finite 4, Finite 5, Finite 6]) =
     Some (Inr \<lparr>sparse_vectors = [\<lparr>sv_len = 2, sv_ids = 0, sv_vals = 0\<rparr>,
                                  \<lparr>sv_len = 3, sv_ids = 2, sv_vals = 2\<rparr>,
                                  \<lparr>sv_len = 1, sv_ids = 5, sv_vals = 5\<rparr>],
                num_elements = 3, num_non_zeros = 6\<rparr>)"
proof -
  have e: "elements strided_pointers = [0, 5, 0, 0]"
    by (simp add: elements_def element_def strided_pointers_def upt_conv_Cons)
  have "ndim strided_pointers = 1"
    by (simp add: ndim_def strided_pointers_def)
  moreover have "in_buffer strided_pointers"
    by (simp add: in_buffer_def strided_pointers_def upt_conv_Cons)
  moreover have "\<not> c_contiguous strided_pointers"
    by (simp add: c_contiguous_def strided_pointers_def)
  moreover have "csr_malformed (elements strided_pointers) 6 6"
    unfolding e by (simp add: csr_malformed_sorted)
  moreover have "BuildSparseVectorsFromCSR strided_pointers (array1 [0, 3, 1, 2, 4, 0])
       (array1 [Finite 1, Finite 2, Finite 3, Finite 4, Finite 5, Finite 6]) =
     Some (Inr \<lparr>sparse_vectors = [\<lparr>sv_len = 2, sv_ids = 0, sv_vals = 0\<rparr>,
                                  \<lparr>sv_len = 3, sv_ids = 2, sv_vals = 2\<rparr>,
                                  \<lparr>sv_len = 1, sv_ids = 5, sv_vals = 5\<rparr>],
                num_elements = 3, num_non_zeros = 6\<rparr>)"
    by (simp add: BuildSparseVectorsFromCSR_def strided_pointers_def ndim_def items_def
        strided_pointers_loop fill_row_def upt_conv_Cons)
  ultimately show ?thesis
    using e by simp
qed

text \<open>
  The view \<^verbatim>\<open>base[::2]\<close> of \<open>[0,1,2,2,2]\<close> has the elements \<open>[0,2,2]\<close>, a well-formed batch of
  a row of two nonzeros and an empty row; the ingestion reads \<open>[0,1,2]\<close> and returns two rows
  of one nonzero each.
\<close>

lemma strided_rows_loop: "check_pointers [0, 1, 2, 2, 2] 2 1 = Some (Inr ())"
  by (simp add: check_pointers.simps)

lemma csr_strided_view_rows:
  "ndim strided_rows = 1 \<and> in_buffer strided_rows \<and> \<not> c_contiguous strided_rows \<and>
   elements strided_rows = [0, 2, 2] \<and>
   \<not> csr_malformed (elements strided_rows) 2 2 \<and>
   BuildSparseVectorsFromCSR strided_rows (array1 [4, 7]) (array1 [Finite 1, Finite 2]) =
     Some (Inr \<lparr>sparse_vectors = [\<lparr>sv_len = 1, sv_ids = 0, sv_vals = 0\<rparr>,
                                  \<lparr>sv_len = 1, sv_ids = 1, sv_vals = 1\<rparr>],
                num_elements = 2, num_non_zeros = 2\<rparr>)"
proof -
  have e: "elements strided_rows = [0, 2, 2]"
    by (simp add: elements_def element_def strided_rows_def upt_conv_Cons)
  have "ndim strided_rows = 1"
    by (simp add: ndim_def strided_rows_def)
  moreover have "in_buffer strided_rows"
    by (simp add: in_buffer_def strided_rows_def upt_conv_Cons)
  moreover have "\<not> c_contiguous strided_rows"
    by (simp add: c_contiguous_def strided_rows_def)
  moreover have "\<not> csr_malformed (elements strided_rows) 2 2"
    unfolding e by (simp add: csr_malformed_sorted)
  moreover have "BuildSparseVectorsFromCSR strided_rows (array1 [4, 7])
       (array1 [Finite 1, Finite 2]) =
     Some (Inr \<lparr>sparse_vectors = [\<lparr>sv_len = 1, sv_ids = 0, sv_vals = 0\<rparr>,
                                  \<lparr>sv_len = 1, sv_ids = 1, sv_vals = 1\<rparr>],
                num_elements = 2, num_non_zeros = 2\<rparr>)"
    by (simp add: BuildSparseVectorsFromCSR_def strided_rows_def ndim_def items_def
        strided_rows_loop fill_row_def upt_conv_Cons)
  ultimately show ?thesis
    using e by simp
qed

text \<open>
  A view whose stride is not positive is read past its buffer: of the broadcast view of one
  zero to five entries the first read, at position 4, already is.
\<close>

lemma csr_broadcast_view_read:
  "in_buffer \<lparr>shape = [5], strides = [0], offset = 0, buffer = [0 :: u32]\<rparr> \<and>
   BuildSparseVectorsFromCSR \<lparr>shape = [5], strides = [0], offset = 0, buffer = [0]\<rparr>
       (array1 []) (array1 ([] :: f32 list)) = Some (Inl read_past_buffer)"
  by (simp add: in_buffer_def BuildSparseVectorsFromCSR_def ndim_def items_def upt_conv_Cons)

section \<open>Parameter defaults\<close>

lemma skip_ratio_literal: "float_of_literal_below_1 (9 / 10) = Finite (15099494 / 16777216)"
proof -
  have "round ((75497472::real) / 5) = 15099494"
    by (simp add: round_def)
  then show ?thesis
    by (simp add: float_of_literal_below_1_def)
qed

text \<open>
  Claim C9. A default-constructed build parameter value has prefetch mode \<open>HARDCODED\<close>, the
  four flags false and the float data type. A default-constructed search parameter value
  has prefetch mode \<open>HARDCODED\<close>, the strides and the depth 1, 1 and 3, and as \<open>skip_ratio\<close> the
  float nearest to 0.9, which is within \<open>2^-25\<close> of 0.9 and is not 1: the value that turns the
  skip heuristic off is not the default.
\<close>

theorem default_parameters:
  "use_conjugate_graph (HnswParameters_default md efc) = False \<and>
   use_static (HnswParameters_default md efc) = False \<and>
   normalize (HnswParameters_default md efc) = False \<and>
   use_reversed_edges (HnswParameters_default md efc) = False \<and>
   data_type (HnswParameters_default md efc) = DATA_TYPE_FLOAT \<and>
   prefetch_mode (HnswParameters_default md efc) = HARDCODED \<and>
   search_prefetch_mode (HnswSearchParameters_default efs ucg) = HARDCODED \<and>
   skip_ratio (HnswSearchParameters_default efs ucg) = Finite (15099494 / 16777216) \<and>
   \<bar>15099494 / 16777216 - 9 / 10 :: real\<bar> < 1 / 2 ^ 25 \<and>
   skip_ratio (HnswSearchParameters_default efs ucg) \<noteq> Finite 1 \<and>
   prefetch_stride_codes (HnswSearchParameters_default efs ucg) = 1 \<and>
   prefetch_depth_codes (HnswSearchParameters_default efs ucg) = 1 \<and>
   prefetch_stride_visit (HnswSearchParameters_default efs ucg) = 3"
  by (simp add: HnswParameters_default_def HnswSearchParameters_default_def
      skip_ratio_literal)

section \<open>The search wrappers of the binding\<close>

subsection \<open>\<^verbatim>\<open>KnnSearch\<close>\<close>

lemma copy_fold:
  assumes "m \<le> length xs" "m \<le> length ys" "m \<le> length a" "m \<le> length b"
  shows "fold (\<lambda>kj (ids, dists). (ids[kj := xs ! kj], dists[kj := ys ! kj])) [0..<m] (a, b)
           = (take m xs @ drop m a, take m ys @ drop m b)"
  using assms
proof (induction m)
  case 0
  then show ?case by simp
next
  case (Suc m)
  have u: "(take m xs @ drop m a)[m := xs ! m] = take (Suc m) xs @ drop (Suc m) a"
    using Suc.prems
    by (simp add: list_update_append take_Suc_conv_app_nth Cons_nth_drop_Suc[symmetric])
  have v: "(take m ys @ drop m b)[m := ys ! m] = take (Suc m) ys @ drop (Suc m) b"
    using Suc.prems
    by (simp add: list_update_append take_Suc_conv_app_nth Cons_nth_drop_Suc[symmetric])
  show ?case
    using Suc u v by simp
qed

lemma knn_copy_single:
  assumes "m \<le> length (Ids ds)" "m \<le> length (Distances ds)" "m \<le> k"
  shows "knn_copy ds k 1 m (replicate k x, replicate k y) =
           (take m (Ids ds) @ replicate (k - m) x, take m (Distances ds) @ replicate (k - m) y)"
proof -
  have "knn_copy ds k 1 m (replicate k x, replicate k y) =
     fold (\<lambda>kj (ids, dists). (ids[kj := Ids ds ! kj], dists[kj := Distances ds ! kj])) [0..<m]
       (replicate k x, replicate k y)"
    by (simp add: knn_copy_def Let_def)
  also have "\<dots> = (take m (Ids ds) @ drop m (replicate k x),
                    take m (Distances ds) @ drop m (replicate k y))"
    using assms by (intro copy_fold) simp_all
  finally show ?thesis by simp
qed

text \<open>
  For one query the wrapper returns \<open>k\<close> slots: the hits of the index, \<open>k\<close> of them at
  most, followed by slots that keep the id \<open>-1\<close> and the distance infinity they were filled
  with.
\<close>

lemma KnnSearch_single:
  assumes "index_KnnSearch (knn_query q) k parameters = Inr ds"
    and "1 \<le> NumElements ds"
    and "min (Dim ds) k \<le> length (Ids ds)" "min (Dim ds) k \<le> length (Distances ds)"
  shows "KnnSearch index_KnnSearch (array1 q) k parameters =
     Inr (c_array [k] (take (min (Dim ds) k) (Ids ds) @ replicate (k - Dim ds) (- 1)),
          c_array [k] (take (min (Dim ds) k) (Distances ds) @ replicate (k - Dim ds) Infinity))"
proof -
  have a: "min (NumElements ds) (Suc 0) = Suc 0"
    using assms(2) by simp
  have c: "knn_copy ds k (Suc 0) (min (Dim ds) k) (replicate k (- 1), replicate k Infinity) =
     (take (min (Dim ds) k) (Ids ds) @ replicate (k - min (Dim ds) k) (- 1),
      take (min (Dim ds) k) (Distances ds) @ replicate (k - min (Dim ds) k) Infinity)"
    using assms(3,4) knn_copy_single[of "min (Dim ds) k" ds k "- 1" Infinity] by simp
  have d: "k - min (Dim ds) k = k - Dim ds"
    by simp
  show ?thesis
    using assms(1) by (simp add: KnnSearch_def Let_def knn_query_def a c d)
qed

subsection \<open>\<^verbatim>\<open>RangeSearch\<close> and failed searches: claim C4\<close>

lemma range_copy_fold:
  assumes "n < 2 ^ 32"
  shows "unat i \<le> n \<Longrightarrow> range_copy result n i out = Some (fold (range_step result) [unat i..<n] out)"
proof (induction "n - unat i" arbitrary: i out)
  case 0
  then have "\<not> unat i < n" by simp
  then show ?case
    using 0 by (subst range_copy.simps) simp
next
  case (Suc d)
  then have lt: "unat i < n" by simp
  have "unat i + unat (1::u32) < 2 ^ LENGTH(32)"
    using lt assms by simp
  then have "unat (i + 1) = unat i + unat (1::u32)"
    by (simp only: unat_add_lem)
  then have s: "unat (i + 1) = Suc (unat i)" by simp
  have d: "d = n - unat (i + 1)" using Suc.hyps(2) s by simp
  have le: "unat (i + 1) \<le> n" using lt s by simp
  have "range_copy result n i out =
        range_copy result n (i + 1) (range_step result (unat i) out)"
    using lt by (subst range_copy.simps) (simp add: range_step_def)
  also have "\<dots> = Some (fold (range_step result) [unat (i + 1)..<n] (range_step result (unat i) out))"
    using Suc.hyps(1)[OF d le] .
  also have "\<dots> = Some (fold (range_step result) [unat i..<n] out)"
    using lt s by (simp add: upt_conv_Cons)
  finally show ?case .
qed

lemma range_fold:
  assumes "m \<le> length (Ids result)" "m \<le> length (Distances result)" "m \<le> length a" "m \<le> length b"
  shows "fold (range_step result) [0..<m] (a, b)
           = (take m (Ids result) @ drop m a, take m (Distances result) @ drop m b)"
proof -
  have "range_step result = (\<lambda>kj (ids, dists). (ids[kj := Ids result ! kj], dists[kj := Distances result ! kj]))"
    by (auto simp: range_step_def fun_eq_iff)
  then show ?thesis using copy_fold[OF assms] by simp
qed

lemma RangeSearch_success:
  assumes "index_RangeSearch (range_query point) threshold parameters = Inr result"
    and "Dim result < 2 ^ 32"
    and "Dim result \<le> length (Ids result)" "Dim result \<le> length (Distances result)"
  shows "RangeSearch index_RangeSearch point threshold parameters =
     Some (Inr (c_array [Dim result] (take (Dim result) (Ids result)),
                c_array [Dim result] (take (Dim result) (Distances result))))"
proof -
  let ?k = "Dim result"
  have "range_copy result ?k 0 (replicate ?k 0, replicate ?k (Finite 0)) =
          Some (fold (range_step result) [unat (0::u32)..<?k] (replicate ?k 0, replicate ?k (Finite 0)))"
    using assms(2) by (intro range_copy_fold) simp_all
  also have "\<dots> = Some (take ?k (Ids result) @ drop ?k (replicate ?k 0),
         take ?k (Distances result) @ drop ?k (replicate ?k (Finite 0)))"
    using assms(3,4) by (simp add: range_fold)
  finally have "range_copy result ?k 0 (replicate ?k 0, replicate ?k (Finite 0)) =
     Some (take ?k (Ids result), take ?k (Distances result))"
    by simp
  then show ?thesis
    using assms(1) by (simp add: RangeSearch_def Let_def range_query_def)
qed

text \<open>
  Claim C4. When the search of the index fails, \<^verbatim>\<open>RangeSearch\<close> of the binding returns two
  empty arrays, the very value it returns for a search that found nothing, where
  \<^verbatim>\<open>KnnSearch\<close> throws a \<^verbatim>\<open>runtime_error\<close> with the message of the failure.
\<close>

theorem search_failure_not_reported:
  "RangeSearch (\<lambda>query threshold parameters. Inl err) point threshold parameters
     = Some (Inr (array1 [], array1 [])) \<and>
   RangeSearch (\<lambda>query threshold parameters. Inr (Make\<lparr>NumElements := 1\<rparr>)) point threshold parameters
     = Some (Inr (array1 [], array1 [])) \<and>
   KnnSearch (\<lambda>query k parameters. Inl err) (array1 q) k parameters
     = Inl (runtime_error (Text (message err)))"
proof -
  have "range_copy (Make\<lparr>NumElements := 1\<rparr>) 0 0 ([], []) = Some ([], [])"
    by (subst range_copy.simps) simp
  then show ?thesis
    by (simp add: RangeSearch_def KnnSearch_def Let_def Make_def array1_def ndim_def)
qed

lemma sparse_knn_row_failure:
  "sparse_knn_row (\<lambda>query k parameters. Inl err) batch k parameters i out = out"
  by (simp add: sparse_knn_row_def)

lemma SparseKnnSearch_swallows_failure:
  assumes "BuildSparseVectorsFromCSR index_pointers indices values = Some (Inr batch)"
  shows "SparseKnnSearch (\<lambda>query k parameters. Inl err) (garbage_ids, garbage_dists)
           index_pointers indices values k parameters =
         Some (Inr (c_array [unat (num_elements batch), unat k] garbage_ids,
                    c_array [unat (num_elements batch), unat k] garbage_dists))"
proof -
  have "fold (sparse_knn_row (\<lambda>query k parameters. Inl err) batch (unat k) parameters) xs out = out"
    for xs out
    by (induction xs) (simp_all add: sparse_knn_row_failure)
  then show ?thesis
    using assms by (simp add: SparseKnnSearch_def Let_def)
qed

section \<open>The search engine\<close>

subsection \<open>One pass of the search, and what every pass preserves\<close>

declare search_layer.simps [simp del]

lemma search_layer_Nil:
  "frontier st = [] \<Longrightarrow> search_layer g distance cfg acc st = st"
  by (subst search_layer.simps) simp

lemma search_layer_stop:
  "frontier st = cand # rest \<Longrightarrow> best st \<noteq> [] \<and> fst (last (best st)) < fst cand \<Longrightarrow>
   search_layer g distance cfg acc st = st"
  by (subst search_layer.simps) simp

lemma search_layer_skip:
  "frontier st = cand # rest \<Longrightarrow> \<not> (best st \<noteq> [] \<and> fst (last (best st)) < fst cand) \<Longrightarrow>
   best st \<noteq> [] \<and> skip_rejects (cfg_skip_ratio cfg) (fst cand) (fst (last (best st))) \<Longrightarrow>
   search_layer g distance cfg acc st = search_layer g distance cfg acc (st\<lparr>frontier := rest\<rparr>)"
  by (subst search_layer.simps) simp

lemma search_layer_expand:
  "frontier st = cand # rest \<Longrightarrow> \<not> (best st \<noteq> [] \<and> fst (last (best st)) < fst cand) \<Longrightarrow>
   \<not> (best st \<noteq> [] \<and> skip_rejects (cfg_skip_ratio cfg) (fst cand) (fst (last (best st)))) \<Longrightarrow>
   search_layer g distance cfg acc st =
     search_layer g distance cfg acc (expand g distance cfg acc (snd cand) (st\<lparr>frontier := rest\<rparr>))"
  by (subst search_layer.simps) auto

lemma fold_score_invariant:
  assumes "\<And>st j. P st \<Longrightarrow> P (score g distance cfg acc ns j st)"
  shows "P st \<Longrightarrow> P (fold (score g distance cfg acc ns) js st)"
  by (induction js arbitrary: st) (simp_all add: assms)

lemma expand_invariant:
  assumes "\<And>st ns j. P st \<Longrightarrow> P (score g distance cfg acc ns j st)" "P st"
  shows "P (expand g distance cfg acc c st)"
  using assms by (simp add: expand_def Let_def fold_score_invariant)

lemma search_layer_invariant:
  assumes score: "\<And>st ns j. P st \<Longrightarrow> P (score g distance cfg acc ns j st)"
    and pop: "\<And>st rest. P st \<Longrightarrow> P (st\<lparr>frontier := rest\<rparr>)"
  shows "P st \<Longrightarrow> P (search_layer g distance cfg acc st)"
  using score pop
proof (induction g distance cfg acc st rule: search_layer.induct)
  case (1 g distance cfg acc st)
  note score = "1.prems"(2) and pop = "1.prems"(3)
  show ?case
  proof (cases "frontier st")
    case Nil
    then show ?thesis
      using "1.prems"(1) by (simp add: search_layer_Nil)
  next
    case (Cons cand rest)
    have popped: "P (st\<lparr>frontier := rest\<rparr>)"
      using "1.prems"(1) by (rule pop)
    show ?thesis
    proof (cases "best st \<noteq> [] \<and> fst (last (best st)) < fst cand")
      case True
      then show ?thesis
        using "1.prems"(1) Cons by (simp add: search_layer_stop)
    next
      case stop: False
      show ?thesis
      proof (cases "best st \<noteq> [] \<and> skip_rejects (cfg_skip_ratio cfg) (fst cand) (fst (last (best st)))")
        case True
        show ?thesis
          using "1.IH"(1)[OF Cons stop True popped score pop]
          by (simp add: search_layer_skip[OF Cons stop True])
      next
        case False
        have "P (expand g distance cfg acc (snd cand) (st\<lparr>frontier := rest\<rparr>))"
          using score popped by (rule expand_invariant)
        then show ?thesis
          using "1.IH"(2)[OF Cons stop False _ score pop]
          by (simp add: search_layer_expand[OF Cons stop False])
      qed
    qed
  qed
qed

lemma layered_search_invariant:
  assumes "\<And>st ns j. P st \<Longrightarrow> P (score g distance cfg acc ns j st)"
    and "\<And>st rest. P st \<Longrightarrow> P (st\<lparr>frontier := rest\<rparr>)"
    and "P empty_state"
  shows "P (layered_search g distance cfg acc)"
proof (cases "entry_point g")
  case None
  then show ?thesis
    using assms(3) by (simp add: layered_search_def)
next
  case (Some ep)
  have "P (score g distance cfg acc [descend g distance ep] 0 empty_state)"
    using assms(3) by (rule assms(1))
  then have "P (search_layer g distance cfg acc
      (score g distance cfg acc [descend g distance ep] 0 empty_state))"
    using search_layer_invariant[of P g distance cfg acc] assms(1,2) by blast
  then show ?thesis
    using Some by (simp add: layered_search_def)
qed

subsection \<open>Prefetching: claim C1\<close>

lemma score_core:
  assumes "core st1 = core st2"
  shows "core (score g distance c1 acc ns j st1) = core (score g distance c2 acc ns j st2)"
  using assms by (auto simp: core_def score_def Let_def)

lemma fold_score_core:
  "core st1 = core st2 \<Longrightarrow>
     core (fold (score g distance c1 acc ns) js st1) = core (fold (score g distance c2 acc ns) js st2)"
proof (induction js arbitrary: st1 st2)
  case Nil
  then show ?case by simp
next
  case (Cons j js)
  have "core (score g distance c1 acc ns j st1) = core (score g distance c2 acc ns j st2)"
    using Cons.prems by (rule score_core)
  then show ?case
    using Cons.IH by simp
qed

lemma expand_core:
  assumes "core st1 = core st2"
  shows "core (expand g distance c1 acc c st1) = core (expand g distance c2 acc c st2)"
  using fold_score_core[OF assms] by (simp add: expand_def Let_def)

lemma search_layer_core:
  "cfg_skip_ratio c1 = cfg_skip_ratio c2 \<Longrightarrow> core st1 = core st2 \<Longrightarrow>
   core (search_layer g distance c1 acc st1) = core (search_layer g distance c2 acc st2)"
proof (induction g distance c1 acc st1 arbitrary: st2 rule: search_layer.induct)
  case (1 g distance c1 acc st1)
  note ratio = "1.prems"(1)
  have eq: "frontier st2 = frontier st1" "best st2 = best st1" "visited st2 = visited st1"
    using "1.prems"(2) by (simp_all add: core_def)
  show ?case
  proof (cases "frontier st1")
    case Nil
    then show ?thesis
      using "1.prems"(2) eq by (simp add: search_layer_Nil)
  next
    case (Cons cand rest)
    have f2: "frontier st2 = cand # rest"
      using eq Cons by simp
    have r: "core (st1\<lparr>frontier := rest\<rparr>) = core (st2\<lparr>frontier := rest\<rparr>)"
      using eq by (simp add: core_def)
    show ?thesis
    proof (cases "best st1 \<noteq> [] \<and> fst (last (best st1)) < fst cand")
      case True
      then have "search_layer g distance c1 acc st1 = st1" "search_layer g distance c2 acc st2 = st2"
        using Cons f2 eq by (simp_all add: search_layer_stop)
      then show ?thesis
        using "1.prems"(2) by simp
    next
      case stop: False
      then have stop2: "\<not> (best st2 \<noteq> [] \<and> fst (last (best st2)) < fst cand)"
        using eq by simp
      show ?thesis
      proof (cases "best st1 \<noteq> [] \<and> skip_rejects (cfg_skip_ratio c1) (fst cand) (fst (last (best st1)))")
        case True
        then have skip2: "best st2 \<noteq> [] \<and> skip_rejects (cfg_skip_ratio c2) (fst cand) (fst (last (best st2)))"
          using eq ratio by auto
        have "core (search_layer g distance c1 acc (st1\<lparr>frontier := rest\<rparr>)) =
              core (search_layer g distance c2 acc (st2\<lparr>frontier := rest\<rparr>))"
          using "1.IH"(1)[OF Cons stop True ratio r] .
        then show ?thesis
          by (simp add: search_layer_skip[OF Cons stop True] search_layer_skip[OF f2 stop2 skip2])
      next
        case False
        then have skip2: "\<not> (best st2 \<noteq> [] \<and> skip_rejects (cfg_skip_ratio c2) (fst cand) (fst (last (best st2))))"
          using eq ratio by auto
        have e: "core (expand g distance c1 acc (snd cand) (st1\<lparr>frontier := rest\<rparr>)) =
                 core (expand g distance c2 acc (snd cand) (st2\<lparr>frontier := rest\<rparr>))"
          using r by (rule expand_core)
        have "core (search_layer g distance c1 acc (expand g distance c1 acc (snd cand) (st1\<lparr>frontier := rest\<rparr>))) =
              core (search_layer g distance c2 acc (expand g distance c2 acc (snd cand) (st2\<lparr>frontier := rest\<rparr>)))"
          using "1.IH"(2)[OF Cons stop False ratio e] .
        then show ?thesis
          by (simp add: search_layer_expand[OF Cons stop False] search_layer_expand[OF f2 stop2 skip2])
      qed
    qed
  qed
qed

lemma layered_search_core:
  assumes "cfg_skip_ratio c1 = cfg_skip_ratio c2"
  shows "core (layered_search g distance c1 acc) = core (layered_search g distance c2 acc)"
proof (cases "entry_point g")
  case None
  then show ?thesis by (simp add: layered_search_def)
next
  case (Some ep)
  have "core (score g distance c1 acc [descend g distance ep] 0 empty_state) =
        core (score g distance c2 acc [descend g distance ep] 0 empty_state)"
    by (intro score_core) simp
  then have "core (search_layer g distance c1 acc (score g distance c1 acc [descend g distance ep] 0 empty_state)) =
        core (search_layer g distance c2 acc (score g distance c2 acc [descend g distance ep] 0 empty_state))"
    by (rule search_layer_core[OF assms])
  then show ?thesis
    using Some by (simp add: layered_search_def)
qed

lemma traverse_core:
  assumes "cfg_ef_search c1 = cfg_ef_search c2" "cfg_skip_ratio c1 = cfg_skip_ratio c2"
  shows "core (traverse g distance c1) = core (traverse g distance c2)"
  using layered_search_core[OF assms(2)] assms(1) by (simp add: traverse_def)

lemma search_config_of_agree:
  assumes "ef_search p1 = ef_search p2" "skip_ratio p1 = skip_ratio p2"
  shows "cfg_ef_search (search_config_of p1) = cfg_ef_search (search_config_of p2)"
    and "cfg_skip_ratio (search_config_of p1) = cfg_skip_ratio (search_config_of p2)"
  using assms by (simp_all add: search_config_of_def)

text \<open>
  Claim C1. For every index, query and \<open>k\<close>, two search parameter values with the same
  \<open>ef_search\<close> and \<open>skip_ratio\<close> give the same result of \<open>KnnSearch\<close> and visit the same
  nodes, whatever their prefetch configurations are: disabled, hardcoded, or custom with
  any strides and depth.
\<close>

theorem prefetch_mode_invariance:
  assumes "ef_search p1 = ef_search p2" "skip_ratio p1 = skip_ratio p2"
  shows "SearchEngine_KnnSearch g distance (search_config_of p1) k =
         SearchEngine_KnnSearch g distance (search_config_of p2) k \<and>
         visited (traverse g distance (search_config_of p1)) =
         visited (traverse g distance (search_config_of p2))"
proof -
  have "core (traverse g distance (search_config_of p1)) =
        core (traverse g distance (search_config_of p2))"
    using search_config_of_agree[OF assms] by (rule traverse_core)
  then show ?thesis
    using search_config_of_agree(1)[OF assms]
    by (simp add: SearchEngine_KnnSearch_def core_def)
qed

lemma hints_custom:
  "issued_hints g3 d3 (search_config_of params_custom) =
   [PrefetchCodes 2 0, PrefetchCodes 2 1, PrefetchVisit 2, PrefetchCodes 2 0, PrefetchCodes 2 1,
    PrefetchVisit 2, PrefetchCodes 1 0, PrefetchCodes 1 1, PrefetchVisit 1]"
  by code_simp

lemma hints_hardcoded:
  "issued_hints g3 d3 (search_config_of params_hardcoded) =
   [PrefetchCodes 2 0, PrefetchVisit 2, PrefetchCodes 2 0, PrefetchVisit 2, PrefetchCodes 1 0,
    PrefetchVisit 1]"
  by code_simp

lemma hints_disabled: "issued_hints g3 d3 (search_config_of params_disabled) = []"
  by code_simp

lemma knn_custom:
  "SearchEngine_KnnSearch g3 d3 (search_config_of params_custom) 2 = Inr [(11, 1), (12, 2)]"
  by code_simp

theorem prefetch_mode_invariance_witness:
  "SearchEngine_KnnSearch g3 d3 (search_config_of params_disabled) 2 = Inr [(11, 1), (12, 2)] \<and>
   SearchEngine_KnnSearch g3 d3 (search_config_of params_hardcoded) 2 = Inr [(11, 1), (12, 2)] \<and>
   SearchEngine_KnnSearch g3 d3 (search_config_of params_custom) 2 = Inr [(11, 1), (12, 2)] \<and>
   issued_hints g3 d3 (search_config_of params_disabled) \<noteq>
   issued_hints g3 d3 (search_config_of params_custom)"
proof -
  have e: "ef_search params_disabled = ef_search params_custom"
    "skip_ratio params_disabled = skip_ratio params_custom"
    "ef_search params_hardcoded = ef_search params_custom"
    "skip_ratio params_hardcoded = skip_ratio params_custom"
    by (simp_all add: params_disabled_def params_custom_def)
  show ?thesis
    using prefetch_mode_invariance[OF e(1,2), of g3 d3 2]
      prefetch_mode_invariance[OF e(3,4), of g3 d3 2]
    by (simp add: knn_custom hints_custom hints_disabled)
qed

text \<open>
  With prefetching disabled a search issues no hint at all: the baseline of section 4.4.
\<close>

lemma disabled_issues_no_hints:
  assumes "cfg_prefetch cfg = Disabled"
  shows "issued_hints g distance cfg = []"
proof -
  have "hints (layered_search g distance cfg acc) = []" for acc
  proof (rule layered_search_invariant[where P = "\<lambda>st. hints st = []"])
    show "hints (score g distance cfg acc ns j st) = []" if "hints st = []" for st ns j
      using that assms by (simp add: score_def Let_def)
    show "hints (st\<lparr>frontier := rest\<rparr>) = []" if "hints st = []" for st rest
      using that by simp
    show "hints empty_state = []"
      by (simp add: empty_state_def)
  qed
  then show ?thesis
    by (simp add: issued_hints_def traverse_def)
qed

text \<open>
  With \<open>skip_ratio = 1\<close> the skip heuristic rejects only what the stop rule stops at, so
  it changes nothing; the default ratio rejects a candidate as far away as the worst
  accepted one, which the stop rule lets through.
\<close>

lemma skip_ratio_one_is_stop_rule:
  assumes "skip_rejects 1 d worst" "0 \<le> worst"
  shows "worst < d"
proof (cases "worst = 0")
  case True
  then show ?thesis
    using assms by (simp add: skip_rejects_def)
next
  case False
  then have "0 < worst"
    using assms(2) by simp
  moreover have "1 < d / worst"
    using assms(1) False by (simp add: skip_rejects_def)
  ultimately show ?thesis
    by (simp add: less_divide_eq)
qed

lemma default_skip_ratio_rejects_entry: "skip_rejects (15099494 / 16777216) 3 3"
  by (simp add: skip_rejects_def)

subsection \<open>Results are live nodes\<close>

lemma set_accept: "set (accept acc cand b) \<subseteq> insert cand (set b)"
proof (cases acc)
  case (Best ef)
  have "set (butlast (insort cand b)) \<subseteq> set (insort cand b)"
    by (auto dest: in_set_butlastD)
  then show ?thesis
    using Best by (auto simp: Let_def set_insort_key)
next
  case (Within threshold)
  then show ?thesis
    by (auto simp: set_insort_key)
qed

lemma score_only_live:
  assumes "only_live g (best st)"
  shows "only_live g (best (score g distance cfg acc ns j st))"
proof -
  have "only_live g (accept acc (d, n) (best st))" if "live g n" for d n
    using assms that set_accept[of acc "(d, n)" "best st"] by (auto simp: only_live_def)
  then show ?thesis
    using assms by (auto simp: score_def Let_def live_def)
qed

lemma layered_search_only_live: "only_live g (best (layered_search g distance cfg acc))"
proof (rule layered_search_invariant[where P = "\<lambda>st. only_live g (best st)"])
  show "only_live g (best (score g distance cfg acc ns j st))" if "only_live g (best st)" for st ns j
    using that by (rule score_only_live)
  show "only_live g (best (st\<lparr>frontier := rest\<rparr>))" if "only_live g (best st)" for st rest
    using that by simp
  show "only_live g (best empty_state)"
    by (simp add: empty_state_def only_live_def)
qed

lemma result_ids_live:
  assumes "only_live g cands" "set cs \<subseteq> set cands"
  shows "fst ` set (hits_of g cs) \<subseteq> {ext_id (nodes g ! i) | i. live g i}"
  using assms by (fastforce simp: hits_of_def only_live_def)

lemma knn_ids_live:
  "result_ids (SearchEngine_KnnSearch g distance cfg k) \<subseteq> {ext_id (nodes g ! i) | i. live g i}"
proof (cases "cfg_ef_search cfg < k")
  case True
  then show ?thesis by (simp add: SearchEngine_KnnSearch_def result_ids_def)
next
  case False
  have "set (take k (best (traverse g distance cfg))) \<subseteq> set (best (traverse g distance cfg))"
    by (rule set_take_subset)
  moreover have "only_live g (best (traverse g distance cfg))"
    unfolding traverse_def by (rule layered_search_only_live)
  ultimately have "fst ` set (hits_of g (take k (best (traverse g distance cfg))))
      \<subseteq> {ext_id (nodes g ! i) | i. live g i}"
    by (intro result_ids_live)
  then show ?thesis using False by (simp add: SearchEngine_KnnSearch_def result_ids_def)
qed

lemma range_ids_live:
  "result_ids (SearchEngine_RangeSearch g distance cfg t) \<subseteq> {ext_id (nodes g ! i) | i. live g i}"
proof -
  have "fst ` set (hits_of g (best (layered_search g distance cfg (Within t))))
      \<subseteq> {ext_id (nodes g ! i) | i. live g i}"
    using layered_search_only_live[of g distance cfg "Within t"] by (rule result_ids_live) simp
  then show ?thesis by (simp add: SearchEngine_RangeSearch_def result_ids_def)
qed

text \<open>
  The number of results of a range search is not bounded by \<open>ef_search\<close>: with
  \<open>ef_search = 1\<close> the three nodes of the example index, all within the threshold, are
  returned.
\<close>

lemma range_search_unbounded:
  "SearchEngine_RangeSearch g3 d3 \<lparr>cfg_ef_search = 1, cfg_skip_ratio = 1, cfg_prefetch = Disabled\<rparr> 5
     = Inr [(11, 1), (12, 2), (10, 3)]"
  by code_simp

subsection \<open>Removal: claim C8\<close>

lemma find_live_Some:
  assumes "find_live g label = Some i"
  shows "i < length (nodes g) \<and> ext_id (nodes g ! i) = label \<and> \<not> tombstoned (nodes g ! i)"
proof -
  let ?f = "filter (\<lambda>i. ext_id (nodes g ! i) = label \<and> \<not> tombstoned (nodes g ! i)) [0..<length (nodes g)]"
  from assms obtain rest where "?f = i # rest"
    by (auto simp: find_live_def split: list.splits)
  then have "i \<in> set ?f" by simp
  then show ?thesis by simp
qed

lemma Remove_nodes:
  assumes "GraphBuilder_Remove label g = Inr g'"
  shows "\<exists>i < length (nodes g). ext_id (nodes g ! i) = label \<and>
           nodes g' = (nodes g)[i := (nodes g ! i)\<lparr>tombstoned := True\<rparr>]"
proof -
  from assms obtain i where i: "find_live g label = Some i"
    and g': "g' = g\<lparr>nodes := (nodes g)[i := (nodes g ! i)\<lparr>tombstoned := True\<rparr>]\<rparr>"
    by (auto simp: GraphBuilder_Remove_def split: option.splits)
  from find_live_Some[OF i] g' show ?thesis by auto
qed

lemma Remove_ext_ids:
  assumes "GraphBuilder_Remove label g = Inr g'"
  shows "map ext_id (nodes g') = map ext_id (nodes g)"
proof -
  from Remove_nodes[OF assms] obtain i where
    "nodes g' = (nodes g)[i := (nodes g ! i)\<lparr>tombstoned := True\<rparr>]" by blast
  moreover have "ext_id ((nodes g)[i := (nodes g ! i)\<lparr>tombstoned := True\<rparr>] ! j) = ext_id (nodes g ! j)"
    if "j < length (nodes g)" for j
    using that by (cases "i = j") simp_all
  ultimately show ?thesis
    by (intro nth_equalityI) simp_all
qed

lemma Remove_keeps_tombstones:
  assumes "GraphBuilder_Remove label g = Inr g'" "j < length (nodes g)" "tombstoned (nodes g ! j)"
  shows "tombstoned (nodes g' ! j)"
proof -
  from Remove_nodes[OF assms(1)] obtain i where
    "nodes g' = (nodes g)[i := (nodes g ! i)\<lparr>tombstoned := True\<rparr>]" by blast
  then show ?thesis
    using assms(2,3) by (cases "i = j") simp_all
qed

lemma Remove_gone:
  assumes "distinct (map ext_id (nodes g))" "GraphBuilder_Remove label g = Inr g'"
  shows "gone label g'"
proof -
  from Remove_nodes[OF assms(2)] obtain i where i: "i < length (nodes g)"
    "ext_id (nodes g ! i) = label"
    "nodes g' = (nodes g)[i := (nodes g ! i)\<lparr>tombstoned := True\<rparr>]" by blast
  then have "i < length (nodes g') \<and> ext_id (nodes g' ! i) = label \<and> tombstoned (nodes g' ! i)"
    by simp
  then show ?thesis
    using assms(1) Remove_ext_ids[OF assms(2)] by (auto simp: gone_def)
qed

lemma Remove_preserves_gone:
  assumes "gone label g" "GraphBuilder_Remove other g = Inr g'"
  shows "gone label g'"
proof -
  from assms(1) obtain j where j: "j < length (nodes g)" "ext_id (nodes g ! j) = label"
    "tombstoned (nodes g ! j)" and d: "distinct (map ext_id (nodes g))"
    by (auto simp: gone_def)
  have m: "map ext_id (nodes g') = map ext_id (nodes g)"
    using assms(2) by (rule Remove_ext_ids)
  then have l: "length (nodes g') = length (nodes g)"
    by (metis length_map)
  have "ext_id (nodes g' ! j) = label"
    using m j(1,2) l by (metis nth_map)
  moreover have "tombstoned (nodes g' ! j)"
    using assms(2) j(1,3) by (rule Remove_keeps_tombstones)
  ultimately show ?thesis
    using d m l j(1) by (auto simp: gone_def)
qed

lemma add_step_preserves_gone:
  assumes "gone label g" "add_step g g'"
  shows "gone label g'"
proof -
  from assms(1) obtain j where j: "j < length (nodes g)" "ext_id (nodes g ! j) = label"
    "tombstoned (nodes g ! j)" and d: "distinct (map ext_id (nodes g))"
    by (auto simp: gone_def)
  let ?n = "length (nodes g)"
  from assms(2) have l: "length (nodes g') = Suc ?n"
    and same: "\<forall>i < ?n. ext_id (nodes g' ! i) = ext_id (nodes g ! i) \<and>
                  tombstoned (nodes g' ! i) = tombstoned (nodes g ! i)"
    and fresh: "ext_id (nodes g' ! ?n) \<notin> ext_id ` set (nodes g)"
    by (auto simp: add_step_def)
  have "map ext_id (nodes g') = map ext_id (nodes g) @ [ext_id (nodes g' ! ?n)]"
    using l same by (intro nth_equalityI) (auto simp: nth_append less_Suc_eq)
  then have "distinct (map ext_id (nodes g'))"
    using d fresh by simp
  moreover have "j < length (nodes g') \<and> ext_id (nodes g' ! j) = label \<and> tombstoned (nodes g' ! j)"
    using j l same by simp
  ultimately show ?thesis
    by (auto simp: gone_def)
qed

lemma later_preserves_gone:
  "later g1 g2 \<Longrightarrow> gone label g1 \<Longrightarrow> gone label g2"
  by (induction rule: later.induct)
    (auto intro: Remove_preserves_gone add_step_preserves_gone)

lemma gone_not_live:
  assumes "gone label g" "live g i"
  shows "ext_id (nodes g ! i) \<noteq> label"
proof
  assume e: "ext_id (nodes g ! i) = label"
  from assms(1) obtain j where j: "j < length (nodes g)" "ext_id (nodes g ! j) = label"
    "tombstoned (nodes g ! j)" and d: "distinct (map ext_id (nodes g))"
    by (auto simp: gone_def)
  have i: "i < length (nodes g)" "\<not> tombstoned (nodes g ! i)"
    using assms(2) by (simp_all add: live_def)
  have "map ext_id (nodes g) ! i = map ext_id (nodes g) ! j"
    using e j(1,2) i(1) by simp
  moreover have "i < length (map ext_id (nodes g))" "j < length (map ext_id (nodes g))"
    using i(1) j(1) by simp_all
  ultimately have "i = j"
    using d by (simp only: nth_eq_iff_index_eq)
  then show False
    using i(2) j(3) by simp
qed

lemma remove_loop_Cons:
  assumes "remove_loop (index_Remove_of report) (l # ls) g = (Inr (), g1)"
  shows "\<exists>g'. GraphBuilder_Remove l g = Inr g' \<and>
           remove_loop (index_Remove_of report) ls g' = (Inr (), g1)"
proof (cases "GraphBuilder_Remove l g")
  case (Inl e)
  then have "index_Remove_of report l g = (Inl (report e), g)"
    by (simp add: index_Remove_of_def)
  then show ?thesis
    using assms by simp
next
  case (Inr g')
  then have "index_Remove_of report l g = (Inr True, g')"
    by (simp add: index_Remove_of_def)
  then show ?thesis
    using assms Inr by simp
qed

lemma remove_loop_gone:
  "distinct (map ext_id (nodes g)) \<Longrightarrow>
   remove_loop (index_Remove_of report) labels g = (Inr (), g1) \<Longrightarrow>
   label \<in> set labels \<Longrightarrow> gone label g1"
proof (induction labels arbitrary: g)
  case Nil
  then show ?case by simp
next
  case (Cons l labels)
  from remove_loop_Cons[OF Cons.prems(2)] obtain g' where r: "GraphBuilder_Remove l g = Inr g'"
    and rest: "remove_loop (index_Remove_of report) labels g' = (Inr (), g1)"
    by blast
  have d': "distinct (map ext_id (nodes g'))"
    using Cons.prems(1) Remove_ext_ids[OF r] by simp
  have keep: "gone label g' \<Longrightarrow> gone label g1"
    using rest
  proof (induction labels arbitrary: g')
    case Nil
    then show ?case by simp
  next
    case (Cons m ms)
    from remove_loop_Cons[OF Cons.prems(2)] obtain g'' where r': "GraphBuilder_Remove m g' = Inr g''"
      and rest': "remove_loop (index_Remove_of report) ms g'' = (Inr (), g1)"
      by blast
    show ?case
      using Cons.IH[OF Remove_preserves_gone[OF Cons.prems(1) r'] rest'] .
  qed
  show ?case
  proof (cases "label = l")
    case True
    then show ?thesis
      using keep Remove_gone[OF Cons.prems(1) r] by simp
  next
    case False
    then have "label \<in> set labels"
      using Cons.prems(3) by simp
    then show ?thesis
      using Cons.IH[OF d' rest] by simp
  qed
qed

text \<open>
  Claim C8. After \<open>Remove\<close> of the binding has succeeded on ids that include \<open>label\<close>, no
  \<open>KnnSearch\<close> and no \<open>RangeSearch\<close> returns \<open>label\<close>, in the state the removal leaves and in
  every state reached from it by further removals and insertions; the tombstoned node stays
  in the graph.
\<close>

theorem removed_id_never_returned:
  assumes "distinct (map ext_id (nodes g))"
    and "Remove (index_Remove_of report) (array1 labels) g = (Inr (), g1)"
    and "label \<in> set labels"
    and "later g1 g2"
  shows "label \<notin> result_ids (SearchEngine_KnnSearch g2 distance cfg k) \<and>
         label \<notin> result_ids (SearchEngine_RangeSearch g2 distance cfg threshold)"
proof -
  have "remove_loop (index_Remove_of report) labels g = (Inr (), g1)"
    using assms(2) by (simp add: Remove_def)
  then have "gone label g1"
    using assms(1,3) remove_loop_gone by blast
  then have "gone label g2"
    using later_preserves_gone[OF assms(4)] by simp
  then have "label \<notin> {ext_id (nodes g2 ! i) | i. live g2 i}"
    using gone_not_live by blast
  then show ?thesis
    using knn_ids_live[of g2 distance cfg k] range_ids_live[of g2 distance cfg threshold]
    by blast
qed

lemma remove_11: "Remove (index_Remove_of report0) (array1 [11]) g3 = (Inr (), g3_without_11)"
  by (simp add: Remove_def index_Remove_of_def GraphBuilder_Remove_def find_live_def g3_def
      g3_without_11_def upt_conv_Cons)

lemma before_removal: "SearchEngine_KnnSearch g3 d3 (cfg0 Disabled) 2 = Inr [(11, 1), (12, 2)]"
  by code_simp

lemma after_removal: "SearchEngine_KnnSearch g3_without_11 d3 (cfg0 Disabled) 2 = Inr [(12, 2), (10, 3)]"
  by code_simp

lemma range_before_removal:
  "SearchEngine_RangeSearch g3 d3 (cfg0 Disabled) 3 = Inr [(11, 1), (12, 2), (10, 3)]"
  by code_simp

lemma range_after_removal:
  "SearchEngine_RangeSearch g3_without_11 d3 (cfg0 Disabled) 3 = Inr [(12, 2), (10, 3)]"
  by code_simp

theorem removed_id_never_returned_witness:
  "Remove (index_Remove_of report0) (array1 [11]) g3 = (Inr (), g3_without_11) \<and>
   11 \<in> result_ids (SearchEngine_KnnSearch g3 d3 (cfg0 Disabled) 2) \<and>
   11 \<in> result_ids (SearchEngine_RangeSearch g3 d3 (cfg0 Disabled) 3) \<and>
   11 \<notin> result_ids (SearchEngine_KnnSearch g3_without_11 d3 (cfg0 Disabled) 2) \<and>
   11 \<notin> result_ids (SearchEngine_RangeSearch g3_without_11 d3 (cfg0 Disabled) 3)"
proof -
  have "distinct (map ext_id (nodes g3))"
    by (simp add: g3_def)
  from removed_id_never_returned[OF this remove_11 _ later_refl, of 11 d3 "cfg0 Disabled" 2 3]
  show ?thesis
    using remove_11 by (simp add: before_removal range_before_removal result_ids_def)
qed

end
